theory Spec2Isabelle
  imports Main
begin

section \<open>A model of \<^verbatim>\<open>twitch_recorder.py\<close>\<close>

text \<open>
  The recorder is one Python class, \<^verbatim>\<open>TwitchRecorder\<close>, whose methods talk to four
  things outside it: the network (\<^verbatim>\<open>requests.get\<close>), the Twitch API, the clock and
  the child process started with \<^verbatim>\<open>subprocess.Popen\<close>. The model passes the object
  and the part of the world it touches as one record. What the outside answers to a call
  (a response or an exception, a process that exits on its own, a sleep that is interrupted)
  is an argument of the function that makes the call, so every theorem holds for every
  behaviour of the outside.
\<close>

subsection \<open>Exceptions\<close>

text \<open>
  The source names four exception classes in its \<^verbatim>\<open>except\<close> clauses:
  \<^verbatim>\<open>RequestException\<close>, \<^verbatim>\<open>subprocess.TimeoutExpired\<close>, \<^verbatim>\<open>Exception\<close> and
  \<^verbatim>\<open>KeyboardInterrupt\<close>. \<open>OSError\<close> stands for what \<^verbatim>\<open>Popen\<close> and \<^verbatim>\<open>mkdir\<close>
  raise, \<open>OtherException\<close> for any other subclass of \<^verbatim>\<open>Exception\<close>.
  \<^verbatim>\<open>KeyboardInterrupt\<close> and \<^verbatim>\<open>asyncio.CancelledError\<close> are the two classes that are
  not subclasses of \<^verbatim>\<open>Exception\<close>. An exception carries its message, which the log
  lines print.

  \<^verbatim>\<open>record_stream\<close> is a coroutine run by \<^verbatim>\<open>asyncio.run\<close>. A Ctrl-C reaches it in
  one of two ways: as \<^verbatim>\<open>KeyboardInterrupt\<close> raised in a blocking call (\<^verbatim>\<open>time.sleep\<close>,
  \<^verbatim>\<open>requests.get\<close>, \<^verbatim>\<open>Popen\<close>, \<^verbatim>\<open>Popen.wait\<close>), or as a cancellation of the task,
  which raises \<^verbatim>\<open>CancelledError\<close> at an \<^verbatim>\<open>await\<close> of the API (this is what the first
  Ctrl-C does under \<^verbatim>\<open>asyncio.run\<close> of Python 3.11 and later, and what a Ctrl-C that
  arrives during an \<^verbatim>\<open>await\<close> does in every version).
\<close>

datatype exn_class =
  RequestException | TimeoutExpired | OSError | OtherException | KeyboardInterrupt | CancelledError

datatype exn = Exn exn_class string

fun cls :: "exn \<Rightarrow> exn_class" where
  "cls (Exn c m) = c"

fun str_exn :: "exn \<Rightarrow> string" where
  "str_exn (Exn c m) = m"

definition isinstance_Exception :: "exn \<Rightarrow> bool" where
  "isinstance_Exception e = (cls e \<noteq> KeyboardInterrupt \<and> cls e \<noteq> CancelledError)"

subsection \<open>Paths (\<^verbatim>\<open>pathlib\<close> on POSIX)\<close>

text \<open>
  A \<^verbatim>\<open>PurePosixPath\<close> is a root (empty, \<^verbatim>\<open>/\<close> or \<^verbatim>\<open>//\<close>) and a list of parts.
  Parsing a string splits it at \<^verbatim>\<open>/\<close> and drops the empty parts and the parts \<^verbatim>\<open>.\<close>;
  \<^verbatim>\<open>p / key\<close> joins the two strings as \<^verbatim>\<open>posixpath.join\<close> does (a key that starts with
  \<^verbatim>\<open>/\<close> replaces \<^verbatim>\<open>p\<close>) and parses the result.
\<close>

datatype path = Path string "string list"

fun split_sep :: "string \<Rightarrow> string list" where
  "split_sep [] = [[]]"
| "split_sep (c # cs) =
     (if c = CHR ''/'' then [] # split_sep cs
      else (case split_sep cs of [] \<Rightarrow> [[c]] | x # xs \<Rightarrow> (c # x) # xs))"

fun join_sep :: "string list \<Rightarrow> string" where
  "join_sep [] = []"
| "join_sep [x] = x"
| "join_sep (x # y # ys) = x @ ''/'' @ join_sep (y # ys)"

definition splitroot :: "string \<Rightarrow> string \<times> string" where
  "splitroot p =
     (if take 1 p \<noteq> ''/'' then ([], p)
      else if take 1 (drop 1 p) \<noteq> ''/'' \<or> take 1 (drop 2 p) = ''/'' then (''/'', drop 1 p)
      else (''//'', drop 2 p))"

definition parse_path :: "string \<Rightarrow> path" where
  "parse_path p =
     (case splitroot p of
        (root, rel) \<Rightarrow> Path root (filter (\<lambda>x. x \<noteq> [] \<and> x \<noteq> ''.'') (split_sep rel)))"

fun str_path :: "path \<Rightarrow> string" where
  "str_path (Path root parts) =
     (if root = [] \<and> parts = [] then ''.'' else root @ join_sep parts)"

definition posix_join :: "string \<Rightarrow> string \<Rightarrow> string" where
  "posix_join a b =
     (if take 1 b = ''/'' then b
      else if a = [] \<or> last a = CHR ''/'' then a @ b
      else a @ ''/'' @ b)"

definition truediv :: "path \<Rightarrow> string \<Rightarrow> path" where
  "truediv p key = parse_path (posix_join (str_path p) key)"

subsection \<open>The clock and \<^verbatim>\<open>strftime\<close>\<close>

record datetime =
  year :: nat
  month :: nat
  day :: nat
  hour :: nat
  minute :: nat
  second :: nat
  microsecond :: nat

text \<open>
  The fields of a wall-clock reading. The years are those that \<^verbatim>\<open>%Y\<close> prints with four
  digits on every platform.
\<close>

definition valid_datetime :: "datetime \<Rightarrow> bool" where
  "valid_datetime d =
     (1000 \<le> year d \<and> year d \<le> 9999 \<and> 1 \<le> month d \<and> month d \<le> 12 \<and>
      1 \<le> day d \<and> day d \<le> 31 \<and> hour d < 24 \<and> minute d < 60 \<and> second d < 60 \<and>
      microsecond d < 1000000)"

definition digit :: "nat \<Rightarrow> char" where
  "digit n = char_of (48 + n mod 10)"

definition d2 :: "nat \<Rightarrow> string" where
  "d2 n = [digit (n div 10), digit n]"

definition d4 :: "nat \<Rightarrow> string" where
  "d4 n = [digit (n div 1000), digit (n div 100), digit (n div 10), digit n]"

text \<open>\<^verbatim>\<open>strftime("%Y%m%d_%H%M%S")\<close>: the microseconds are not printed.\<close>

definition strftime :: "datetime \<Rightarrow> string" where
  "strftime d =
     d4 (year d) @ d2 (month d) @ d2 (day d) @ ''_'' @ d2 (hour d) @ d2 (minute d) @ d2 (second d)"

subsection \<open>The recorder and the world around it\<close>

datatype pstatus = Running | Exited

datatype signal = SIGTERM | SIGKILL

datatype node = Dir | File

datatype level = INFO | WARNING | ERROR

text \<open>What the program does to the outside, in the order it does it.\<close>

datatype event =
    Log level string
  | Sleep nat
  | Get string nat
  | Handshake string string
  | GetStreams string
  | Popen "string list"
  | Signal signal nat
  | Wait nat nat

type_synonym session = string

text \<open>
  The first seven fields are the attributes \<^verbatim>\<open>__init__\<close> sets. \<open>procs\<close> is the table
  of the children spawned so far (a \<^verbatim>\<open>Popen\<close> handle is an index into it), \<open>fs\<close> the
  file system, \<open>trace\<close> the events so far. \<open>peak\<close> is bookkeeping of the model only: the
  largest number of children that were running at once, updated where a child is spawned
  (nowhere else can that number grow).
\<close>

record recorder =
  channel :: string
  quality :: string
  output_dir :: path
  client_id :: string
  client_secret :: string
  twitch :: "session option"
  process :: "nat option"
  procs :: "pstatus list"
  fs :: "string \<Rightarrow> node option"
  trace :: "event list"
  peak :: nat

definition emit :: "event \<Rightarrow> recorder \<Rightarrow> recorder" where
  "emit e s = s\<lparr>trace := trace s @ [e]\<rparr>"

definition logging :: "level \<Rightarrow> string \<Rightarrow> recorder \<Rightarrow> recorder" where
  "logging l m s = emit (Log l m) s"

definition running :: "recorder \<Rightarrow> nat \<Rightarrow> bool" where
  "running s p = (p < length (procs s) \<and> procs s ! p = Running)"

definition live_count :: "recorder \<Rightarrow> nat" where
  "live_count s = length (filter (\<lambda>x. x = Running) (procs s))"

text \<open>
  \<^verbatim>\<open>time.sleep(n)\<close> returns after \<open>n\<close> seconds, or it is interrupted and raises
  \<^verbatim>\<open>KeyboardInterrupt\<close>. A Ctrl-C that only cancels the task lets the sleep return: the
  next answer of the API is then \<^verbatim>\<open>CancelledError\<close>.
\<close>

definition sleep :: "bool \<Rightarrow> nat \<Rightarrow> recorder \<Rightarrow> (exn + unit) \<times> recorder" where
  "sleep interrupted n s =
     (if interrupted then (Inl (Exn KeyboardInterrupt []), emit (Sleep n) s)
      else (Inr (), emit (Sleep n) s))"

subsection \<open>\<^verbatim>\<open>Popen\<close>: terminate, wait, kill\<close>

text \<open>
  \<^verbatim>\<open>terminate\<close> and \<^verbatim>\<open>kill\<close> send nothing to a child that has exited. \<^verbatim>\<open>wait\<close>
  returns at once for such a child. For a running one, three things can happen during
  \<^verbatim>\<open>wait(timeout)\<close>: the child exits within the timeout; the timeout expires and
  \<^verbatim>\<open>TimeoutExpired\<close> is raised; or a Ctrl-C arrives and \<^verbatim>\<open>KeyboardInterrupt\<close> is
  raised, the child having exited by then or not. A child cannot survive \<^verbatim>\<open>SIGKILL\<close>.
\<close>

datatype waiting = Exits | Expires | Interrupted bool

definition child_exits :: "recorder \<Rightarrow> recorder" where
  "child_exits s =
     (case process s of None \<Rightarrow> s | Some p \<Rightarrow> s\<lparr>procs := (procs s)[p := Exited]\<rparr>)"

definition terminate :: "nat \<Rightarrow> recorder \<Rightarrow> recorder" where
  "terminate p s = (if running s p then emit (Signal SIGTERM p) s else s)"

definition kill :: "nat \<Rightarrow> recorder \<Rightarrow> recorder" where
  "kill p s =
     (if running s p then emit (Signal SIGKILL p) (s\<lparr>procs := (procs s)[p := Exited]\<rparr>) else s)"

definition wait :: "waiting \<Rightarrow> nat \<Rightarrow> nat \<Rightarrow> recorder \<Rightarrow> (exn + unit) \<times> recorder" where
  "wait w p timeout s =
     (if \<not> running s p then (Inr (), s)
      else
        (case w of
           Exits \<Rightarrow> (Inr (), emit (Wait p timeout) (s\<lparr>procs := (procs s)[p := Exited]\<rparr>))
         | Expires \<Rightarrow> (Inl (Exn TimeoutExpired []), emit (Wait p timeout) s)
         | Interrupted g \<Rightarrow>
             (Inl (Exn KeyboardInterrupt []),
              emit (Wait p timeout) (if g then s\<lparr>procs := (procs s)[p := Exited]\<rparr> else s))))"

subsection \<open>\<^verbatim>\<open>stop_recording\<close> and \<^verbatim>\<open>start_recording\<close>\<close>

text \<open>
  What the child does while \<^verbatim>\<open>stop_recording\<close> runs: \<open>gone\<close>, it has exited on its
  own by the time \<^verbatim>\<open>terminate\<close> looks at it; \<open>waited\<close>, what happens during the wait.
  Only \<^verbatim>\<open>TimeoutExpired\<close> is caught: any other exception leaves the method before the
  handle is cleared.
\<close>

record stopping =
  gone :: bool
  waited :: waiting

definition stop_recording :: "stopping \<Rightarrow> recorder \<Rightarrow> (exn + unit) \<times> recorder" where
  "stop_recording st s =
     (case process s of
        None \<Rightarrow> (Inr (), s)
      | Some p \<Rightarrow>
          (case wait (waited st) p 10 (terminate p (if gone st then child_exits s else s)) of
             (Inr u, s2) \<Rightarrow> (Inr (), logging INFO ''Recording stopped'' (s2\<lparr>process := None\<rparr>))
           | (Inl e, s2) \<Rightarrow>
               if cls e = TimeoutExpired
               then (Inr (), logging INFO ''Recording stopped'' ((kill p s2)\<lparr>process := None\<rparr>))
               else (Inl e, s2)))"

definition command :: "recorder \<Rightarrow> path \<Rightarrow> string list" where
  "command s filename =
     [''streamlink'', ''--twitch-disable-hosting'', ''--twitch-disable-ads'',
      ''--retry-max'', ''5'', ''--retry-streams'', ''30'', ''--stream-timeout'', ''60'',
      ''--twitch-low-latency'', ''twitch.tv/'' @ channel s, quality s,
      ''-o'', str_path filename]"

text \<open>
  \<^verbatim>\<open>Popen\<close> either raises (\<open>spawn = Some e\<close>; nothing is assigned) or returns the
  handle of a new running child, which is stored in \<^verbatim>\<open>self.process\<close>.
\<close>

definition start_recording :: "exn option \<Rightarrow> path \<Rightarrow> recorder \<Rightarrow> (exn + unit) \<times> recorder" where
  "start_recording spawn filename s =
     (case spawn of
        Some e \<Rightarrow> (Inl e, s)
      | None \<Rightarrow>
          (let s1 = emit (Popen (command s filename))
                      (s\<lparr>procs := procs s @ [Running], process := Some (length (procs s))\<rparr>);
               s2 = s1\<lparr>peak := max (peak s1) (live_count s1)\<rparr>
           in (Inr (), logging INFO (''Started recording to '' @ str_path filename) s2)))"

subsection \<open>\<^verbatim>\<open>__init__\<close>\<close>

text \<open>
  \<^verbatim>\<open>Path.mkdir(exist_ok=True)\<close> creates the directory when nothing has that name, does
  nothing when a directory has it, and raises \<^verbatim>\<open>FileExistsError\<close> when a file has it.
\<close>

definition mkdir_exist_ok ::
  "string \<Rightarrow> (string \<Rightarrow> node option) \<Rightarrow> exn + (string \<Rightarrow> node option)" where
  "mkdir_exist_ok p f =
     (case f p of
        None \<Rightarrow> Inr (f(p \<mapsto> Dir))
      | Some Dir \<Rightarrow> Inr f
      | Some File \<Rightarrow> Inl (Exn OSError ''File exists''))"

text \<open>The constructor, run on the file system \<open>f\<close>; no child has been spawned yet.\<close>

definition init :: "string \<Rightarrow> string \<Rightarrow> (string \<Rightarrow> node option) \<Rightarrow> exn + recorder" where
  "init ch q f =
     (case mkdir_exist_ok (str_path (parse_path ''recordings'')) f of
        Inl e \<Rightarrow> Inl e
      | Inr f' \<Rightarrow>
          Inr \<lparr>channel = ch, quality = q, output_dir = parse_path ''recordings'',
               client_id = ''YOUR_CLIENT_ID'', client_secret = ''YOUR_CLIENT_SECRET'',
               twitch = None, process = None, procs = [], fs = f', trace = [], peak = 0\<rparr>)"

subsection \<open>\<^verbatim>\<open>is_internet_available\<close>\<close>

definition endpoints :: "string list" where
  "endpoints = [''https://1.1.1.1'', ''https://8.8.8.8'', ''https://www.google.com'']"

definition probe_timeout :: nat where
  "probe_timeout = 5"

text \<open>
  The \<^verbatim>\<open>for\<close> loop over the endpoints. \<open>net ep\<close> is what \<^verbatim>\<open>requests.get\<close> does for
  the endpoint \<open>ep\<close>: \<open>None\<close> when it returns a response, \<open>Some e\<close> when it raises \<open>e\<close>.
\<close>

fun probe :: "(string \<Rightarrow> exn option) \<Rightarrow> string list \<Rightarrow> recorder \<Rightarrow> (exn + bool) \<times> recorder" where
  "probe net [] s = (Inr False, s)"
| "probe net (ep # eps) s =
     (case net ep of
        None \<Rightarrow> (Inr True, emit (Get ep probe_timeout) s)
      | Some e \<Rightarrow>
          if cls e = RequestException then probe net eps (emit (Get ep probe_timeout) s)
          else (Inl e, emit (Get ep probe_timeout) s))"

definition is_internet_available ::
  "(string \<Rightarrow> exn option) \<Rightarrow> recorder \<Rightarrow> (exn + bool) \<times> recorder" where
  "is_internet_available net s = probe net endpoints s"

subsection \<open>\<^verbatim>\<open>initialize_twitch\<close> and \<^verbatim>\<open>is_stream_live\<close>\<close>

text \<open>
  What the Twitch API answers during one call of \<^verbatim>\<open>is_stream_live\<close>: to the
  handshake \<^verbatim>\<open>Twitch(client_id, client_secret)\<close>, a session or an exception; to
  \<^verbatim>\<open>first(get_streams(...))\<close>, the first stream record, \<open>None\<close> when there is none,
  or an exception.
\<close>

record api =
  handshake :: "exn + session"
  streams :: "exn + string option"

definition initialize_twitch :: "exn + session \<Rightarrow> recorder \<Rightarrow> (exn + unit) \<times> recorder" where
  "initialize_twitch hs s =
     (let s0 = emit (Handshake (client_id s) (client_secret s)) s in
      case hs of
        Inr t \<Rightarrow>
          (Inr (), logging INFO ''Successfully authenticated with Twitch API'' (s0\<lparr>twitch := Some t\<rparr>))
      | Inl e \<Rightarrow>
          if isinstance_Exception e
          then (Inl e, logging ERROR (''Failed to initialize Twitch API: '' @ str_exn e) s0)
          else (Inl e, s0))"

text \<open>The \<^verbatim>\<open>except Exception\<close> clause of \<^verbatim>\<open>is_stream_live\<close>.\<close>

definition live_except :: "exn \<Rightarrow> recorder \<Rightarrow> (exn + bool) \<times> recorder" where
  "live_except e s =
     (if isinstance_Exception e
      then (Inr False, logging ERROR (''Error checking stream status: '' @ str_exn e) s)
      else (Inl e, s))"

definition is_stream_live :: "api \<Rightarrow> recorder \<Rightarrow> (exn + bool) \<times> recorder" where
  "is_stream_live a s =
     (case (if twitch s = None then initialize_twitch (handshake a) s else (Inr (), s)) of
        (Inl e, s1) \<Rightarrow> live_except e s1
      | (Inr u, s1) \<Rightarrow>
          (case streams a of
             Inl e \<Rightarrow> live_except e (emit (GetStreams (channel s1)) s1)
           | Inr stream \<Rightarrow> (Inr (stream \<noteq> None), emit (GetStreams (channel s1)) s1)))"

subsection \<open>\<^verbatim>\<open>get_output_filename\<close>\<close>

text \<open>\<open>now\<close> is what \<^verbatim>\<open>datetime.datetime.now()\<close> returns. The method changes nothing.\<close>

definition get_output_filename :: "datetime \<Rightarrow> recorder \<Rightarrow> path \<times> recorder" where
  "get_output_filename now s =
     (truediv (output_dir s) (channel s @ ''_'' @ strftime now @ ''.mp4''), s)"

subsection \<open>\<^verbatim>\<open>record_stream\<close>\<close>

text \<open>
  One round of the inner \<^verbatim>\<open>while\<close> loop sees: whether the child has exited on its
  own by the time of the poll, the API's answers, what the child does should it be stopped
  (it may have exited during the query), and whether the sleep is interrupted.
\<close>

record mon =
  m_exited :: bool
  m_api :: api
  m_stop :: stopping
  m_interrupted :: bool

text \<open>
  How a piece of the loop ends: \<open>Continue\<close> with the next round of the outer loop,
  \<open>Break\<close> out of it (the method returns), an exception that leaves the method, or
  \<open>Unfinished\<close>: the observed rounds are used up and the loop is still running.
\<close>

datatype outcome = Continue | Break | Escaped exn | Unfinished

definition poll_is_None :: "recorder \<Rightarrow> bool" where
  "poll_is_None s = (case process s of None \<Rightarrow> False | Some p \<Rightarrow> running s p)"

text \<open>
  The inner loop \<^verbatim>\<open>while self.process and self.process.poll() is None\<close>. An
  exception is handed to the handlers of the outer \<^verbatim>\<open>try\<close> as \<open>Inl\<close>.
\<close>

fun monitor :: "mon list \<Rightarrow> recorder \<Rightarrow> (exn + outcome) \<times> recorder" where
  "monitor [] s = (Inr Unfinished, s)"
| "monitor (m # ms) s =
     (let s0 = (if m_exited m then child_exits s else s) in
      if \<not> (process s0 \<noteq> None \<and> poll_is_None s0) then (Inr Continue, s0)
      else
        (case is_stream_live (m_api m) s0 of
           (Inl e, s1) \<Rightarrow> (Inl e, s1)
         | (Inr live, s1) \<Rightarrow>
             if \<not> live then
               (case stop_recording (m_stop m) (logging INFO ''Stream ended'' s1) of
                  (Inl e, s2) \<Rightarrow> (Inl e, s2)
                | (Inr u, s2) \<Rightarrow> (Inr Continue, s2))
             else
               (case sleep (m_interrupted m) 30 s1 of
                  (Inl e, s2) \<Rightarrow> (Inl e, s2)
                | (Inr u, s2) \<Rightarrow> monitor ms s2)))"

text \<open>
  What one round of the outer loop sees: the network, the API, whether the sleep of the
  \<^verbatim>\<open>try\<close> body is interrupted, the clock, what \<^verbatim>\<open>Popen\<close> does, the rounds of the
  inner loop, and for the handlers what the child does when it is stopped and whether the
  sleep is interrupted.
\<close>

record tick =
  t_net :: "string \<Rightarrow> exn option"
  t_api :: api
  t_interrupted :: bool
  t_now :: datetime
  t_spawn :: "exn option"
  t_mon :: "mon list"
  h_stop :: stopping
  h_interrupted :: bool

text \<open>The body of the \<^verbatim>\<open>try\<close>.\<close>

definition try_body :: "tick \<Rightarrow> recorder \<Rightarrow> (exn + outcome) \<times> recorder" where
  "try_body t s =
     (case is_internet_available (t_net t) s of
        (Inl e, s1) \<Rightarrow> (Inl e, s1)
      | (Inr online, s1) \<Rightarrow>
          if \<not> online then
            (case sleep (t_interrupted t) 30 (logging WARNING ''No internet connection'' s1) of
               (Inl e, s2) \<Rightarrow> (Inl e, s2)
             | (Inr u, s2) \<Rightarrow> (Inr Continue, s2))
          else
            (case is_stream_live (t_api t) s1 of
               (Inl e, s2) \<Rightarrow> (Inl e, s2)
             | (Inr live, s2) \<Rightarrow>
                 if \<not> live then
                   (case sleep (t_interrupted t) 30
                           (logging INFO (''Channel '' @ channel s2 @ '' is not live'') s2) of
                      (Inl e, s3) \<Rightarrow> (Inl e, s3)
                    | (Inr u, s3) \<Rightarrow> (Inr Continue, s3))
                 else
                   (case get_output_filename (t_now t) s2 of
                      (filename, s3) \<Rightarrow>
                        (case start_recording (t_spawn t) filename s3 of
                           (Inl e, s4) \<Rightarrow> (Inl e, s4)
                         | (Inr u, s4) \<Rightarrow> monitor (t_mon t) s4))))"

text \<open>
  The two handlers. An exception raised inside a handler is not caught by the other one:
  it leaves \<^verbatim>\<open>record_stream\<close>. So does an exception that is neither a
  \<^verbatim>\<open>KeyboardInterrupt\<close> nor an \<^verbatim>\<open>Exception\<close>: no handler runs for it.
\<close>

definition handlers :: "tick \<Rightarrow> exn \<Rightarrow> recorder \<Rightarrow> outcome \<times> recorder" where
  "handlers t e s =
     (if cls e = KeyboardInterrupt then
        (case stop_recording (h_stop t) (logging INFO ''Recording interrupted by user'' s) of
           (Inl e', s1) \<Rightarrow> (Escaped e', s1)
         | (Inr u, s1) \<Rightarrow> (Break, s1))
      else if isinstance_Exception e then
        (case stop_recording (h_stop t) (logging ERROR (''Unexpected error: '' @ str_exn e) s) of
           (Inl e', s1) \<Rightarrow> (Escaped e', s1)
         | (Inr u, s1) \<Rightarrow>
             (case sleep (h_interrupted t) 30 s1 of
                (Inl e', s2) \<Rightarrow> (Escaped e', s2)
              | (Inr u, s2) \<Rightarrow> (Continue, s2)))
      else (Escaped e, s))"

text \<open>One round of \<^verbatim>\<open>while True\<close>.\<close>

definition run_tick :: "tick \<Rightarrow> recorder \<Rightarrow> outcome \<times> recorder" where
  "run_tick t s =
     (case try_body t s of
        (Inl e, s1) \<Rightarrow> handlers t e s1
      | (Inr r, s1) \<Rightarrow> (r, s1))"

fun record_stream :: "tick list \<Rightarrow> recorder \<Rightarrow> outcome \<times> recorder" where
  "record_stream [] s = (Unfinished, s)"
| "record_stream (t # ts) s =
     (case run_tick t s of
        (Continue, s1) \<Rightarrow> record_stream ts s1
      | (r, s1) \<Rightarrow> (r, s1))"

subsection \<open>A recorder for the examples\<close>

text \<open>
  The recorder that \<^verbatim>\<open>TwitchRecorder('foo', '480p,360p,best')\<close> builds in an empty
  working directory, and the same recorder holding a child that runs, or one that has
  exited.
\<close>

definition recorder0 :: recorder where
  "recorder0 =
     \<lparr>channel = ''foo'', quality = ''480p,360p,best'', output_dir = Path [] [''recordings''],
      client_id = ''YOUR_CLIENT_ID'', client_secret = ''YOUR_CLIENT_SECRET'',
      twitch = None, process = None, procs = [], fs = [''recordings'' \<mapsto> Dir], trace = [],
      peak = 0\<rparr>"

definition recording0 :: recorder where
  "recording0 = recorder0\<lparr>twitch := Some ''session'', process := Some 0, procs := [Running], peak := 1\<rparr>"

definition exited0 :: recorder where
  "exited0 = recorder0\<lparr>twitch := Some ''session'', process := Some 0, procs := [Exited], peak := 1\<rparr>"

subsection \<open>Which endpoints a call probes\<close>

text \<open>
  \<open>probed\<close> lists the endpoints that \<^verbatim>\<open>is_internet_available\<close> requests: the loop
  goes on after a \<^verbatim>\<open>RequestException\<close> and ends with a response or any other
  exception. \<open>first_answer\<close> lists the endpoints up to the first that answers, or all of
  them when none does. \<open>net_google\<close> is a network where only the last endpoint answers.
\<close>

fun probed :: "(string \<Rightarrow> exn option) \<Rightarrow> string list \<Rightarrow> string list" where
  "probed net [] = []"
| "probed net (ep # eps) =
     ep # (case net ep of
             None \<Rightarrow> []
           | Some e \<Rightarrow> if cls e = RequestException then probed net eps else [])"


definition net_google :: "string \<Rightarrow> exn option" where
  "net_google ep =
     (if ep = ''https://www.google.com'' then None else Some (Exn RequestException ''timed out''))"


subsection \<open>Answers of the API and rounds of the loop, for the examples\<close>

text \<open>
  \<open>authed0\<close> is the recorder once a handshake has succeeded. The API answers: the
  handshake is refused; the session is no longer accepted by the query; the channel is
  live; the channel is offline.
\<close>

definition authed0 :: recorder where
  "authed0 = recorder0\<lparr>twitch := Some ''session''\<rparr>"

definition api_refused :: api where
  "api_refused = \<lparr>handshake = Inl (Exn OtherException ''invalid client''), streams = Inr None\<rparr>"

definition api_expired :: api where
  "api_expired =
     \<lparr>handshake = Inr ''fresh'', streams = Inl (Exn OtherException ''401 Unauthorized'')\<rparr>"

definition api_live :: api where
  "api_live = \<lparr>handshake = Inr ''fresh'', streams = Inr (Some ''stream'')\<rparr>"

definition api_offline :: api where
  "api_offline = \<lparr>handshake = Inr ''fresh'', streams = Inr None\<rparr>"

definition noon :: datetime where
  "noon = \<lparr>year = 2024, month = 1, day = 1, hour = 12, minute = 0, second = 0, microsecond = 0\<rparr>"

text \<open>A round of the outer loop in which the network answers and the handshake is refused.\<close>

definition tick_refused :: tick where
  "tick_refused =
     \<lparr>t_net = net_google, t_api = api_refused, t_interrupted = False, t_now = noon,
      t_spawn = None, t_mon = [], h_stop = \<lparr>gone = False, waited = Exits\<rparr>,
      h_interrupted = False\<rparr>"

subsection \<open>The file system from outside, and seconds\<close>

text \<open>
  \<open>removed p\<close>: somebody outside the program removes the entry \<open>p\<close>. \<open>to_second\<close>
  is a clock reading without its microseconds.
\<close>

definition removed :: "string \<Rightarrow> recorder \<Rightarrow> recorder" where
  "removed p s = s\<lparr>fs := (fs s)(p := None)\<rparr>"

definition to_second :: "datetime \<Rightarrow> datetime" where
  "to_second d = d\<lparr>microsecond := 0\<rparr>"

subsection \<open>The states of the loop\<close>

text \<open>
  \<open>at_most_one\<close>: no child runs, or exactly one does and it is the one whose handle
  is stored; and never more than one child ran at once. \<open>idle\<close>: no child runs (the
  state at the top of the outer loop).
\<close>

definition at_most_one :: "recorder \<Rightarrow> bool" where
  "at_most_one s =
     (peak s \<le> 1 \<and> (live_count s = 0 \<or> (live_count s = 1 \<and> poll_is_None s)))"

definition idle :: "recorder \<Rightarrow> bool" where
  "idle s = (peak s \<le> 1 \<and> live_count s = 0)"

subsection \<open>Rounds of the loop, for the examples\<close>

text \<open>
  What a child does when it is stopped: it exits on \<^verbatim>\<open>SIGTERM\<close>; it ignores
  \<^verbatim>\<open>SIGTERM\<close>; a Ctrl-C arrives during the wait and the child goes on; it had exited
  on its own before.
\<close>

definition st_exits :: stopping where
  "st_exits = \<lparr>gone = False, waited = Exits\<rparr>"

definition st_expires :: stopping where
  "st_expires = \<lparr>gone = False, waited = Expires\<rparr>"

definition st_interrupted :: stopping where
  "st_interrupted = \<lparr>gone = False, waited = Interrupted False\<rparr>"

definition st_gone :: stopping where
  "st_gone = \<lparr>gone = True, waited = Exits\<rparr>"

text \<open>
  Rounds of the inner loop: the child runs and the channel is live; the child has exited
  on its own; the channel has gone offline and the child ignores \<^verbatim>\<open>SIGTERM\<close>; a Ctrl-C
  interrupts the sleep; a Ctrl-C cancels the task during the query. Rounds of the outer
  loop: the channel is live and the inner loop sees the rounds \<open>ms\<close>; the same with a
  \<^verbatim>\<open>Popen\<close> that fails.
\<close>

definition m_on :: mon where
  "m_on = \<lparr>m_exited = False, m_api = api_live, m_stop = st_exits, m_interrupted = False\<rparr>"

definition m_gone :: mon where
  "m_gone = \<lparr>m_exited = True, m_api = api_live, m_stop = st_exits, m_interrupted = False\<rparr>"

definition m_off :: mon where
  "m_off = \<lparr>m_exited = False, m_api = api_offline, m_stop = st_expires, m_interrupted = False\<rparr>"


definition m_cancelled :: mon where
  "m_cancelled =
     \<lparr>m_exited = False,
      m_api = \<lparr>handshake = Inr ''fresh'', streams = Inl (Exn CancelledError [])\<rparr>,
      m_stop = st_exits, m_interrupted = False\<rparr>"

definition tick_live :: "mon list \<Rightarrow> tick" where
  "tick_live ms =
     \<lparr>t_net = net_google, t_api = api_live, t_interrupted = False, t_now = noon,
      t_spawn = None, t_mon = ms, h_stop = st_exits, h_interrupted = False\<rparr>"


subsection \<open>What a stop sends and logs\<close>

text \<open>
  \<open>stop_events p st\<close>: the events of \<^verbatim>\<open>stop_recording\<close> for a held child \<open>p\<close> that
  was running when the call began. \<open>stop_trace st s\<close>: the events of the call in the state
  \<open>s\<close>, whatever is held. \<open>completes\<close>: the wait is not interrupted.
\<close>

definition stop_events :: "nat \<Rightarrow> stopping \<Rightarrow> event list" where
  "stop_events p st =
     (if gone st then [Log INFO ''Recording stopped'']
      else
        (case waited st of
           Exits \<Rightarrow> [Signal SIGTERM p, Wait p 10, Log INFO ''Recording stopped'']
         | Expires \<Rightarrow>
             [Signal SIGTERM p, Wait p 10, Signal SIGKILL p, Log INFO ''Recording stopped'']
         | Interrupted g \<Rightarrow> [Signal SIGTERM p, Wait p 10]))"


definition completes :: "stopping \<Rightarrow> bool" where
  "completes st = (gone st \<or> waited st = Exits \<or> waited st = Expires)"

subsection \<open>More examples\<close>

text \<open>
  A clock reading whose six printed fields all differ, and a network whose first endpoint
  makes \<^verbatim>\<open>requests.get\<close> raise something that is not a \<^verbatim>\<open>RequestException\<close>.
\<close>

definition evening :: datetime where
  "evening =
     \<lparr>year = 2024, month = 3, day = 9, hour = 17, minute = 45, second = 6, microsecond = 250000\<rparr>"


section \<open>Properties\<close>

subsection \<open>Stopping\<close>

lemma init0: "init ''foo'' ''480p,360p,best'' Map.empty = Inr recorder0"
  by (simp add: init_def mkdir_exist_ok_def parse_path_def splitroot_def recorder0_def)

lemma stop_None: "process s = None \<Longrightarrow> stop_recording st s = (Inr (), s)"
  by (simp add: stop_recording_def)

lemma stop_exited:
  assumes "process s = Some p" "\<not> running s p \<or> gone st"
  shows "stop_recording st s =
     (Inr (), s\<lparr>process := None, procs := (procs s)[p := Exited],
               trace := trace s @ [Log INFO ''Recording stopped'']\<rparr>)"
proof -
  let ?s0 = "if gone st then child_exits s else s"
  have p: "procs ?s0 = (procs s)[p := Exited]"
  proof (cases "gone st")
    case True
    with assms(1) show ?thesis by (simp add: child_exits_def)
  next
    case False
    with assms(2) have "\<not> running s p" by simp
    then have "(procs s)[p := Exited] = procs s"
    proof (cases "p < length (procs s)")
      case True
      with \<open>\<not> running s p\<close> have "procs s ! p = Exited"
        by (cases "procs s ! p") (simp_all add: running_def)
      then show ?thesis by (simp add: list_update_same_conv True)
    next
      case False
      then show ?thesis by (simp add: list_update_beyond)
    qed
    with False show ?thesis by simp
  qed
  have q: "process ?s0 = Some p" "trace ?s0 = trace s"
    using assms(1) by (simp_all add: child_exits_def)
  have n: "\<not> running ?s0 p"
    unfolding running_def p by (cases "p < length (procs s)") simp_all
  have e: "?s0\<lparr>process := None\<rparr> = s\<lparr>process := None, procs := (procs s)[p := Exited]\<rparr>"
    using assms(1) p by (cases "gone st") (simp_all add: child_exits_def)
  have "stop_recording st s = (Inr (), logging INFO ''Recording stopped'' (?s0\<lparr>process := None\<rparr>))"
    using assms(1) n by (simp add: stop_recording_def terminate_def wait_def)
  then show ?thesis
    unfolding e by (simp add: logging_def emit_def)
qed

lemma stop_exits:
  "process s = Some p \<Longrightarrow> running s p \<Longrightarrow> \<not> gone st \<Longrightarrow> waited st = Exits \<Longrightarrow>
   stop_recording st s =
     (Inr (), s\<lparr>process := None, procs := (procs s)[p := Exited],
               trace := trace s @ [Signal SIGTERM p, Wait p 10, Log INFO ''Recording stopped'']\<rparr>)"
  by (simp add: stop_recording_def terminate_def wait_def running_def emit_def logging_def)

lemma stop_expires:
  "process s = Some p \<Longrightarrow> running s p \<Longrightarrow> \<not> gone st \<Longrightarrow> waited st = Expires \<Longrightarrow>
   stop_recording st s =
     (Inr (), s\<lparr>process := None, procs := (procs s)[p := Exited],
               trace := trace s @
                 [Signal SIGTERM p, Wait p 10, Signal SIGKILL p, Log INFO ''Recording stopped'']\<rparr>)"
  by (simp add: stop_recording_def terminate_def wait_def kill_def running_def emit_def logging_def)

lemma stop_interrupted:
  "process s = Some p \<Longrightarrow> running s p \<Longrightarrow> \<not> gone st \<Longrightarrow> waited st = Interrupted g \<Longrightarrow>
   stop_recording st s =
     (Inl (Exn KeyboardInterrupt []),
      s\<lparr>procs := (if g then (procs s)[p := Exited] else procs s),
        trace := trace s @ [Signal SIGTERM p, Wait p 10]\<rparr>)"
  by (simp add: stop_recording_def terminate_def wait_def running_def emit_def)

text \<open>Every call of \<^verbatim>\<open>stop_recording\<close> falls under one of the five lemmas above.\<close>

lemma stop_cases:
  fixes s :: recorder and st :: stopping
  obtains (none) "process s = None"
  | (exited) p where "process s = Some p" "\<not> running s p \<or> gone st"
  | (exits) p where "process s = Some p" "running s p" "\<not> gone st" "waited st = Exits"
  | (expires) p where "process s = Some p" "running s p" "\<not> gone st" "waited st = Expires"
  | (interrupted) p g where "process s = Some p" "running s p" "\<not> gone st"
      "waited st = Interrupted g"
proof (cases "process s")
  case None
  then show ?thesis by (rule none)
next
  case (Some p)
  show ?thesis
  proof (cases "\<not> running s p \<or> gone st")
    case True
    with Some show ?thesis by (rule exited)
  next
    case False
    with Some show ?thesis
      by (cases "waited st") (auto intro: exits expires interrupted)
  qed
qed


lemma stop_returns:
  "fst (stop_recording st s) = Inr () \<Longrightarrow> process (snd (stop_recording st s)) = None"
  by (cases rule: stop_cases[where s = s and st = st])
     (simp_all add: stop_None stop_exited stop_exits stop_expires stop_interrupted)

lemma stop_raises:
  "fst (stop_recording st s) = Inl e \<Longrightarrow>
   e = Exn KeyboardInterrupt [] \<and> \<not> completes st \<and> process (snd (stop_recording st s)) = process s"
  by (cases rule: stop_cases[where s = s and st = st])
     (simp_all add: stop_None stop_exited stop_exits stop_expires stop_interrupted completes_def)

lemma stop_completes: "completes st \<Longrightarrow> fst (stop_recording st s) = Inr ()"
  by (cases rule: stop_cases[where s = s and st = st])
     (simp_all add: stop_None stop_exited stop_exits stop_expires stop_interrupted completes_def)

text \<open>
  C4, as the spec states it, has the handle cleared in every case that touches a
  process, and no error. When a Ctrl-C arrives during the wait, \<^verbatim>\<open>KeyboardInterrupt\<close>
  leaves \<^verbatim>\<open>stop_recording\<close> (only \<^verbatim>\<open>TimeoutExpired\<close> is caught there): the handle is
  still stored, no \<^verbatim>\<open>SIGKILL\<close> has been sent and the child may still run.
\<close>

theorem stop_interrupted_keeps_handle:
  "fst (stop_recording st_interrupted recording0) = Inl (Exn KeyboardInterrupt [])
   \<and> process (snd (stop_recording st_interrupted recording0)) = Some 0
   \<and> running (snd (stop_recording st_interrupted recording0)) 0
   \<and> trace (snd (stop_recording st_interrupted recording0)) = [Signal SIGTERM 0, Wait 0 10]"
  by (simp add: stop_recording_def terminate_def wait_def running_def emit_def
      st_interrupted_def recording0_def recorder0_def)

text \<open>
  C4, amended. With no handle \<^verbatim>\<open>stop_recording\<close> changes nothing. With the handle of
  a child that has exited it sends no signal and does not wait: it clears the handle and
  logs. With the handle of a running child it sends \<^verbatim>\<open>SIGTERM\<close> and waits with a timeout
  of 10 seconds; when the child exits in time, or the wait times out and the child is sent
  \<^verbatim>\<open>SIGKILL\<close>, the handle is cleared and the child no longer runs. The call raises only
  when the wait itself is interrupted, and then it raises \<^verbatim>\<open>KeyboardInterrupt\<close>.
  Whenever the call returns, the handle is \<^verbatim>\<open>None\<close>, and a second call changes
  nothing.
\<close>

theorem stop_recording_clears:
  "(process s = None \<longrightarrow> stop_recording st s = (Inr (), s))
   \<and> (\<forall>p. process s = Some p \<and> (\<not> running s p \<or> gone st) \<longrightarrow>
         fst (stop_recording st s) = Inr () \<and>
         process (snd (stop_recording st s)) = None \<and>
         \<not> running (snd (stop_recording st s)) p \<and>
         trace (snd (stop_recording st s)) = trace s @ [Log INFO ''Recording stopped''])
   \<and> (\<forall>p. process s = Some p \<and> running s p \<and> \<not> gone st \<and> waited st = Exits \<longrightarrow>
         fst (stop_recording st s) = Inr () \<and>
         process (snd (stop_recording st s)) = None \<and>
         \<not> running (snd (stop_recording st s)) p \<and>
         trace (snd (stop_recording st s)) =
           trace s @ [Signal SIGTERM p, Wait p 10, Log INFO ''Recording stopped''])
   \<and> (\<forall>p. process s = Some p \<and> running s p \<and> \<not> gone st \<and> waited st = Expires \<longrightarrow>
         fst (stop_recording st s) = Inr () \<and>
         process (snd (stop_recording st s)) = None \<and>
         \<not> running (snd (stop_recording st s)) p \<and>
         trace (snd (stop_recording st s)) =
           trace s @
           [Signal SIGTERM p, Wait p 10, Signal SIGKILL p, Log INFO ''Recording stopped''])
   \<and> (\<forall>e. fst (stop_recording st s) = Inl e \<longrightarrow>
         e = Exn KeyboardInterrupt [] \<and> \<not> gone st \<and> (\<exists>g. waited st = Interrupted g))
   \<and> (fst (stop_recording st s) = Inr () \<longrightarrow>
         process (snd (stop_recording st s)) = None \<and>
         stop_recording st' (snd (stop_recording st s)) = (Inr (), snd (stop_recording st s)))"
proof (intro conjI allI impI)
  fix e
  assume "fst (stop_recording st s) = Inl e"
  from stop_raises[OF this] show "e = Exn KeyboardInterrupt []" "\<not> gone st"
    "\<exists>g. waited st = Interrupted g"
    by (cases "waited st"; simp add: completes_def)+
next
  assume "fst (stop_recording st s) = Inr ()"
  from stop_returns[OF this]
  show "process (snd (stop_recording st s)) = None"
    "stop_recording st' (snd (stop_recording st s)) = (Inr (), snd (stop_recording st s))"
    by (simp_all add: stop_None)
qed (auto simp: stop_None stop_exited stop_exits stop_expires running_def)

theorem stop_recording_clears_witness:
  "process recording0 = Some 0 \<and> running recording0 0
   \<and> \<not> gone st_expires \<and> waited st_expires = Expires
   \<and> fst (stop_recording st_expires recording0) = Inr ()
   \<and> process (snd (stop_recording st_expires recording0)) = None
   \<and> \<not> running (snd (stop_recording st_expires recording0)) 0
   \<and> trace (snd (stop_recording st_expires recording0)) =
        [Signal SIGTERM 0, Wait 0 10, Signal SIGKILL 0, Log INFO ''Recording stopped'']
   \<and> process exited0 = Some 0 \<and> \<not> running exited0 0
   \<and> fst (stop_recording st_exits exited0) = Inr ()
   \<and> process (snd (stop_recording st_exits exited0)) = None
   \<and> trace (snd (stop_recording st_exits exited0)) = [Log INFO ''Recording stopped'']
   \<and> process recorder0 = None
   \<and> stop_recording st_interrupted recorder0 = (Inr (), recorder0)
   \<and> stop_recording st_exits (snd (stop_recording st_expires recording0)) =
        (Inr (), snd (stop_recording st_expires recording0))"
proof -
  have r: "process recording0 = Some 0" "running recording0 0" "trace recording0 = []"
    by (simp_all add: running_def recording0_def recorder0_def)
  have x: "process exited0 = Some 0" "\<not> running exited0 0" "trace exited0 = []"
    by (simp_all add: running_def exited0_def recorder0_def)
  have n: "process recorder0 = None"
    by (simp add: recorder0_def)
  have e: "\<not> gone st_expires" "waited st_expires = Expires"
    by (simp_all add: st_expires_def)
  note a = stop_recording_clears[of recording0 st_expires st_exits]
  note b = stop_recording_clears[of exited0 st_exits st_exits]
  note c = stop_recording_clears[of recorder0 st_interrupted st_exits]
  from a r e have a1: "fst (stop_recording st_expires recording0) = Inr ()"
    "process (snd (stop_recording st_expires recording0)) = None"
    "\<not> running (snd (stop_recording st_expires recording0)) 0"
    "trace (snd (stop_recording st_expires recording0)) =
        trace recording0 @
        [Signal SIGTERM 0, Wait 0 10, Signal SIGKILL 0, Log INFO ''Recording stopped'']"
    by blast+
  from a a1(1) have a2: "stop_recording st_exits (snd (stop_recording st_expires recording0)) =
        (Inr (), snd (stop_recording st_expires recording0))"
    by blast
  from b x have b1: "fst (stop_recording st_exits exited0) = Inr ()"
    "process (snd (stop_recording st_exits exited0)) = None"
    "trace (snd (stop_recording st_exits exited0)) = trace exited0 @ [Log INFO ''Recording stopped'']"
    by blast+
  from c n have c1: "stop_recording st_interrupted recorder0 = (Inr (), recorder0)"
    by blast
  from r x n e a1 a2 b1 c1 show ?thesis
    by simp
qed
subsection \<open>Starting\<close>

lemma live_count_pos: "running s p \<Longrightarrow> 1 \<le> live_count s"
proof -
  assume "running s p"
  then have "Running \<in> set (procs s)"
    unfolding running_def by (metis nth_mem)
  then have "filter (\<lambda>x. x = Running) (procs s) \<noteq> []"
    by (simp add: filter_empty_conv)
  then show ?thesis
    by (cases "filter (\<lambda>x. x = Running) (procs s)") (simp_all add: live_count_def)
qed

lemma start_ok:
  "start_recording None f s =
    (Inr (), s\<lparr>procs := procs s @ [Running], process := Some (length (procs s)),
               trace := trace s @ [Popen (command s f), Log INFO (''Started recording to '' @ str_path f)],
               peak := max (peak s) (Suc (live_count s))\<rparr>)"
  by (simp add: start_recording_def Let_def emit_def logging_def live_count_def)

lemma start_fail: "start_recording (Some e) f s = (Inl e, s)"
  by (simp add: start_recording_def)

text \<open>
  C10. When \<^verbatim>\<open>Popen\<close> raises, \<^verbatim>\<open>start_recording\<close> changes nothing. Otherwise it
  stores the handle of the new child whatever handle was stored before: the only events are
  the spawn and the log line, so no earlier child is signalled. A child that was running and
  held before the call is still running after it and no longer held, and two children run.
\<close>

theorem start_recording_overwrites:
  "start_recording (Some e) f s = (Inl e, s)
   \<and> fst (start_recording None f s) = Inr ()
   \<and> process (snd (start_recording None f s)) = Some (length (procs s))
   \<and> procs (snd (start_recording None f s)) = procs s @ [Running]
   \<and> running (snd (start_recording None f s)) (length (procs s))
   \<and> trace (snd (start_recording None f s)) =
       trace s @ [Popen (command s f), Log INFO (''Started recording to '' @ str_path f)]
   \<and> (\<forall>p. process s = Some p \<and> running s p \<longrightarrow>
         running (snd (start_recording None f s)) p \<and>
         process (snd (start_recording None f s)) \<noteq> Some p \<and>
         2 \<le> live_count (snd (start_recording None f s)))"
proof -
  have "2 \<le> live_count (snd (start_recording None f s))" if "running s p" for p
    using live_count_pos[OF that] by (simp add: start_ok live_count_def)
  then show ?thesis
    by (auto simp: start_ok start_fail running_def nth_append)
qed

theorem start_recording_overwrites_witness:
  "process recording0 = Some 0 \<and> running recording0 0
   \<and> running (snd (start_recording None (Path [] [''recordings'', ''foo_20240101_120000.mp4'']) recording0)) 0
   \<and> process (snd (start_recording None (Path [] [''recordings'', ''foo_20240101_120000.mp4'']) recording0)) = Some 1
   \<and> procs (snd (start_recording None (Path [] [''recordings'', ''foo_20240101_120000.mp4'']) recording0)) = [Running, Running]
   \<and> 2 \<le> live_count (snd (start_recording None (Path [] [''recordings'', ''foo_20240101_120000.mp4'']) recording0))"
proof -
  have r: "process recording0 = Some 0 \<and> running recording0 0"
    by (simp add: running_def recording0_def)
  have l: "length (procs recording0) = 1" "procs recording0 = [Running]"
    by (simp_all add: recording0_def)
  show ?thesis
    using r l start_recording_overwrites[of "Exn OSError []"
        "Path [] [''recordings'', ''foo_20240101_120000.mp4'']" recording0]
    by simp
qed

subsection \<open>Probing the network\<close>

lemma probe_snd:
  "snd (probe net eps s) = s\<lparr>trace := trace s @ map (\<lambda>ep. Get ep probe_timeout) (probed net eps)\<rparr>"
  by (induction eps arbitrary: s) (auto simp: emit_def split: option.splits)








subsection \<open>The live-status check\<close>

lemma isl_refused:
  "twitch s = None \<Longrightarrow> handshake a = Inl e \<Longrightarrow> isinstance_Exception e \<Longrightarrow>
   is_stream_live a s =
     (Inr False,
      s\<lparr>trace := trace s @
           [Handshake (client_id s) (client_secret s),
            Log ERROR (''Failed to initialize Twitch API: '' @ str_exn e),
            Log ERROR (''Error checking stream status: '' @ str_exn e)]\<rparr>)"
  by (simp add: is_stream_live_def initialize_twitch_def live_except_def logging_def emit_def)

lemma isl_session:
  "twitch s = Some t \<Longrightarrow>
   is_stream_live a s =
     (case streams a of
        Inl e \<Rightarrow> live_except e (emit (GetStreams (channel s)) s)
      | Inr stream \<Rightarrow> (Inr (stream \<noteq> None), emit (GetStreams (channel s)) s))"
  by (simp add: is_stream_live_def)

lemma isl_no_session:
  "twitch s = None \<Longrightarrow>
   \<exists>r. trace (snd (is_stream_live a s)) = trace s @ Handshake (client_id s) (client_secret s) # r"
  by (cases "handshake a"; cases "streams a")
     (auto simp: is_stream_live_def initialize_twitch_def live_except_def logging_def emit_def
        Let_def)

lemma isl_session_trace:
  "twitch s = Some t \<Longrightarrow>
   Handshake i c \<notin> set (drop (length (trace s)) (trace (snd (is_stream_live a s))))"
  by (cases "streams a")
     (auto simp: isl_session live_except_def logging_def emit_def)

text \<open>
  C3. When no session is stored and the handshake raises an \<^verbatim>\<open>Exception\<close>,
  \<^verbatim>\<open>is_stream_live\<close> logs the failure twice (once in \<^verbatim>\<open>initialize_twitch\<close>, once in its
  own handler) and returns false. A round of the loop in which the network answers then
  logs that the channel is not live, sleeps 30 seconds and continues with the next round:
  nothing is spawned and nothing else changes.
\<close>

theorem handshake_failure_not_live:
  "twitch s = None \<and> handshake a = Inl e \<and> isinstance_Exception e \<longrightarrow>
     is_stream_live a s =
       (Inr False,
        s\<lparr>trace := trace s @
             [Handshake (client_id s) (client_secret s),
              Log ERROR (''Failed to initialize Twitch API: '' @ str_exn e),
              Log ERROR (''Error checking stream status: '' @ str_exn e)]\<rparr>)
     \<and> (\<forall>t::tick. t_api t = a \<and> fst (is_internet_available (t_net t) s) = Inr True \<and>
              \<not> t_interrupted t \<longrightarrow>
            run_tick t s =
              (Continue,
               s\<lparr>trace := trace (snd (is_internet_available (t_net t) s)) @
                    [Handshake (client_id s) (client_secret s),
                     Log ERROR (''Failed to initialize Twitch API: '' @ str_exn e),
                     Log ERROR (''Error checking stream status: '' @ str_exn e),
                     Log INFO (''Channel '' @ channel s @ '' is not live''),
                     Sleep 30]\<rparr>))"
proof (intro impI conjI allI; elim conjE)
  assume h: "twitch s = None" "handshake a = Inl e" "isinstance_Exception e"
  show "is_stream_live a s =
       (Inr False,
        s\<lparr>trace := trace s @
             [Handshake (client_id s) (client_secret s),
              Log ERROR (''Failed to initialize Twitch API: '' @ str_exn e),
              Log ERROR (''Error checking stream status: '' @ str_exn e)]\<rparr>)"
    by (rule isl_refused[OF h])
next
  fix t :: tick
  assume h: "twitch s = None" "handshake a = Inl e" "isinstance_Exception e"
    and t: "t_api t = a" "fst (is_internet_available (t_net t) s) = Inr True" "\<not> t_interrupted t"
  define s1 where "s1 = snd (is_internet_available (t_net t) s)"
  have s1: "s1 = s\<lparr>trace := trace s1\<rparr>"
    by (simp add: s1_def is_internet_available_def probe_snd)
  have net: "is_internet_available (t_net t) s = (Inr True, s1)"
    using t(2) by (simp add: s1_def prod_eq_iff)
  have tw: "twitch s1 = None" "client_id s1 = client_id s" "client_secret s1 = client_secret s"
    "channel s1 = channel s"
    using h(1) by (simp_all add: s1_def is_internet_available_def probe_snd)
  have live: "is_stream_live (t_api t) s1 =
     (Inr False,
      s1\<lparr>trace := trace s1 @
           [Handshake (client_id s) (client_secret s),
            Log ERROR (''Failed to initialize Twitch API: '' @ str_exn e),
            Log ERROR (''Error checking stream status: '' @ str_exn e)]\<rparr>)"
    using isl_refused[of s1 a e] h tw t(1) by simp
  have "try_body t s =
     (Inr Continue,
      s1\<lparr>trace := trace s1 @
           [Handshake (client_id s) (client_secret s),
            Log ERROR (''Failed to initialize Twitch API: '' @ str_exn e),
            Log ERROR (''Error checking stream status: '' @ str_exn e),
            Log INFO (''Channel '' @ channel s @ '' is not live''),
            Sleep 30]\<rparr>)"
    using t(3) tw(4) by (simp add: try_body_def net live sleep_def logging_def emit_def)
  then have "run_tick t s =
     (Continue,
      s1\<lparr>trace := trace s1 @
           [Handshake (client_id s) (client_secret s),
            Log ERROR (''Failed to initialize Twitch API: '' @ str_exn e),
            Log ERROR (''Error checking stream status: '' @ str_exn e),
            Log INFO (''Channel '' @ channel s @ '' is not live''),
            Sleep 30]\<rparr>)"
    by (simp add: run_tick_def)
  moreover have "s1\<lparr>trace := x\<rparr> = s\<lparr>trace := x\<rparr>" for x
    by (subst s1) simp
  ultimately show "run_tick t s =
              (Continue,
               s\<lparr>trace := trace (snd (is_internet_available (t_net t) s)) @
                    [Handshake (client_id s) (client_secret s),
                     Log ERROR (''Failed to initialize Twitch API: '' @ str_exn e),
                     Log ERROR (''Error checking stream status: '' @ str_exn e),
                     Log INFO (''Channel '' @ channel s @ '' is not live''),
                     Sleep 30]\<rparr>)"
    by (simp add: s1_def)
qed

theorem handshake_failure_not_live_witness:
  "twitch recorder0 = None \<and> handshake api_refused = Inl (Exn OtherException ''invalid client'')
   \<and> isinstance_Exception (Exn OtherException ''invalid client'')
   \<and> t_api tick_refused = api_refused
   \<and> fst (is_internet_available (t_net tick_refused) recorder0) = Inr True
   \<and> \<not> t_interrupted tick_refused
   \<and> fst (is_stream_live api_refused recorder0) = Inr False
   \<and> fst (run_tick tick_refused recorder0) = Continue
   \<and> procs (snd (run_tick tick_refused recorder0)) = []
   \<and> trace (snd (run_tick tick_refused recorder0)) =
       [Get ''https://1.1.1.1'' 5, Get ''https://8.8.8.8'' 5, Get ''https://www.google.com'' 5,
        Handshake ''YOUR_CLIENT_ID'' ''YOUR_CLIENT_SECRET'',
        Log ERROR ''Failed to initialize Twitch API: invalid client'',
        Log ERROR ''Error checking stream status: invalid client'',
        Log INFO ''Channel foo is not live'', Sleep 30]"
proof -
  have a: "twitch recorder0 = None" "handshake api_refused = Inl (Exn OtherException ''invalid client'')"
    "isinstance_Exception (Exn OtherException ''invalid client'')"
    by (simp_all add: recorder0_def api_refused_def isinstance_Exception_def)
  have n: "is_internet_available net_google recorder0 =
      (Inr True, recorder0\<lparr>trace := [Get ''https://1.1.1.1'' 5, Get ''https://8.8.8.8'' 5,
         Get ''https://www.google.com'' 5]\<rparr>)"
    by (simp add: is_internet_available_def endpoints_def net_google_def probe_timeout_def
        emit_def recorder0_def)
  have t: "t_api tick_refused = api_refused" "t_net tick_refused = net_google"
    "\<not> t_interrupted tick_refused"
    by (simp_all add: tick_refused_def)
  have c: "client_id recorder0 = ''YOUR_CLIENT_ID''" "client_secret recorder0 = ''YOUR_CLIENT_SECRET''"
    "channel recorder0 = ''foo''" "procs recorder0 = []"
    by (simp_all add: recorder0_def)
  show ?thesis
    using handshake_failure_not_live[of recorder0 api_refused "Exn OtherException ''invalid client''"]
      a t n c
    by simp
qed

text \<open>
  C6, as the spec states it, would have the session dropped after a session error. It
  is kept: with a session stored, a query that raises leaves \<^verbatim>\<open>self.twitch\<close> as it was,
  and the next call queries with the same session and makes no handshake.
\<close>

theorem session_kept_after_error:
  "fst (is_stream_live api_expired authed0) = Inr False
   \<and> twitch (snd (is_stream_live api_expired authed0)) = Some ''session''
   \<and> trace (snd (is_stream_live api_live (snd (is_stream_live api_expired authed0)))) =
       [GetStreams ''foo'', Log ERROR ''Error checking stream status: 401 Unauthorized'',
        GetStreams ''foo'']
   \<and> twitch (snd (is_stream_live api_live (snd (is_stream_live api_expired authed0)))) =
       Some ''session''"
  by (simp add: is_stream_live_def live_except_def isinstance_Exception_def logging_def emit_def
      api_expired_def api_live_def authed0_def recorder0_def)

lemma isl_twitch:
  "twitch (snd (is_stream_live a s)) =
     (case twitch s of
        Some t \<Rightarrow> Some t
      | None \<Rightarrow> (case handshake a of Inr t \<Rightarrow> Some t | Inl x \<Rightarrow> None))"
  by (cases "handshake a"; cases "streams a"; cases "twitch s")
     (auto simp: is_stream_live_def initialize_twitch_def live_except_def Let_def emit_def
        logging_def)

lemma isl_ids:
  "client_id (snd (is_stream_live a s)) = client_id s"
  "client_secret (snd (is_stream_live a s)) = client_secret s"
  by (cases "handshake a"; cases "streams a";
      auto simp: is_stream_live_def initialize_twitch_def live_except_def Let_def emit_def
        logging_def)+

lemma isl_query_fails:
  assumes "twitch s \<noteq> None \<or> (\<exists>t. handshake a = Inr t)" "streams a = Inl e"
    "isinstance_Exception e"
  shows "fst (is_stream_live a s) = Inr False"
  using assms
  by (cases "handshake a")
     (auto simp: is_stream_live_def initialize_twitch_def live_except_def Let_def)

text \<open>
  C6, amended. A call in which the handshake or the query raises an \<^verbatim>\<open>Exception\<close>
  returns false. No call drops a session: after a call the stored session is the one that
  was stored before it or, when there was none, the one its handshake obtained, and none
  only when there was none and the handshake failed. The next call makes a handshake
  exactly when no session is stored: a failed handshake is tried again, and after an error
  of the query the session is used again as it is.
\<close>

theorem session_after_error:
  "twitch (snd (is_stream_live a s)) =
     (case twitch s of
        Some t \<Rightarrow> Some t
      | None \<Rightarrow> (case handshake a of Inr t \<Rightarrow> Some t | Inl x \<Rightarrow> None))
   \<and> (twitch s = None \<and> handshake a = Inl e \<and> isinstance_Exception e \<longrightarrow>
        fst (is_stream_live a s) = Inr False)
   \<and> ((twitch s \<noteq> None \<or> (\<exists>t. handshake a = Inr t)) \<and> streams a = Inl e \<and>
        isinstance_Exception e \<longrightarrow>
        fst (is_stream_live a s) = Inr False)
   \<and> (twitch (snd (is_stream_live a s)) = None \<longrightarrow>
        (\<exists>r. trace (snd (is_stream_live a' (snd (is_stream_live a s)))) =
              trace (snd (is_stream_live a s)) @ Handshake (client_id s) (client_secret s) # r))
   \<and> (twitch (snd (is_stream_live a s)) \<noteq> None \<longrightarrow>
        (\<forall>i c. Handshake i c \<notin>
           set (drop (length (trace (snd (is_stream_live a s))))
                  (trace (snd (is_stream_live a' (snd (is_stream_live a s))))))))"
proof (intro conjI impI)
  show "twitch (snd (is_stream_live a s)) =
     (case twitch s of
        Some t \<Rightarrow> Some t
      | None \<Rightarrow> (case handshake a of Inr t \<Rightarrow> Some t | Inl x \<Rightarrow> None))"
    by (rule isl_twitch)
next
  assume "twitch s = None \<and> handshake a = Inl e \<and> isinstance_Exception e"
  then show "fst (is_stream_live a s) = Inr False"
    by (simp add: isl_refused)
next
  assume "(twitch s \<noteq> None \<or> (\<exists>t. handshake a = Inr t)) \<and> streams a = Inl e \<and>
        isinstance_Exception e"
  then show "fst (is_stream_live a s) = Inr False"
    using isl_query_fails[of s a e] by blast
next
  assume "twitch (snd (is_stream_live a s)) = None"
  from isl_no_session[OF this, of a'] show
    "\<exists>r. trace (snd (is_stream_live a' (snd (is_stream_live a s)))) =
          trace (snd (is_stream_live a s)) @ Handshake (client_id s) (client_secret s) # r"
    by (simp add: isl_ids)
next
  assume "twitch (snd (is_stream_live a s)) \<noteq> None"
  then obtain t where "twitch (snd (is_stream_live a s)) = Some t"
    by blast
  from isl_session_trace[OF this, of _ _ a'] show
    "\<forall>i c. Handshake i c \<notin>
           set (drop (length (trace (snd (is_stream_live a s))))
                  (trace (snd (is_stream_live a' (snd (is_stream_live a s))))))"
    by blast
qed

theorem session_after_error_witness:
  "twitch recorder0 = None \<and> handshake api_refused = Inl (Exn OtherException ''invalid client'')
   \<and> isinstance_Exception (Exn OtherException ''invalid client'')
   \<and> fst (is_stream_live api_refused recorder0) = Inr False
   \<and> twitch (snd (is_stream_live api_refused recorder0)) = None
   \<and> twitch authed0 = Some ''session''
   \<and> streams api_expired = Inl (Exn OtherException ''401 Unauthorized'')
   \<and> isinstance_Exception (Exn OtherException ''401 Unauthorized'')
   \<and> fst (is_stream_live api_expired authed0) = Inr False
   \<and> twitch (snd (is_stream_live api_expired authed0)) = Some ''session''
   \<and> handshake api_expired = Inr ''fresh''
   \<and> fst (is_stream_live api_expired recorder0) = Inr False
   \<and> twitch (snd (is_stream_live api_expired recorder0)) = Some ''fresh''
   \<and> Handshake ''YOUR_CLIENT_ID'' ''YOUR_CLIENT_SECRET'' \<notin>
        set (drop (length (trace (snd (is_stream_live api_expired recorder0))))
               (trace (snd (is_stream_live api_live (snd (is_stream_live api_expired recorder0))))))"
proof -
  have a: "twitch recorder0 = None" "handshake api_refused = Inl (Exn OtherException ''invalid client'')"
    "isinstance_Exception (Exn OtherException ''invalid client'')"
    by (simp_all add: recorder0_def api_refused_def isinstance_Exception_def)
  have b: "twitch authed0 = Some ''session''"
    "streams api_expired = Inl (Exn OtherException ''401 Unauthorized'')"
    "isinstance_Exception (Exn OtherException ''401 Unauthorized'')"
    "handshake api_expired = Inr ''fresh''"
    by (simp_all add: authed0_def api_expired_def isinstance_Exception_def)
  note r = session_after_error[where s = recorder0 and a = api_refused
        and e = "Exn OtherException ''invalid client''" and a' = api_live]
  note x = session_after_error[where s = authed0 and a = api_expired
        and e = "Exn OtherException ''401 Unauthorized''" and a' = api_live]
  note y = session_after_error[where s = recorder0 and a = api_expired
        and e = "Exn OtherException ''401 Unauthorized''" and a' = api_live]
  from r a have r1: "fst (is_stream_live api_refused recorder0) = Inr False"
    "twitch (snd (is_stream_live api_refused recorder0)) = None"
    by simp_all
  from x b have x1: "fst (is_stream_live api_expired authed0) = Inr False"
    "twitch (snd (is_stream_live api_expired authed0)) = Some ''session''"
    by simp_all
  from y a(1) b have y1: "fst (is_stream_live api_expired recorder0) = Inr False"
    "twitch (snd (is_stream_live api_expired recorder0)) = Some ''fresh''"
    by simp_all
  from y y1(2) have y2: "Handshake ''YOUR_CLIENT_ID'' ''YOUR_CLIENT_SECRET'' \<notin>
        set (drop (length (trace (snd (is_stream_live api_expired recorder0))))
               (trace (snd (is_stream_live api_live (snd (is_stream_live api_expired recorder0))))))"
    by simp
  from a b r1 x1 y1 y2 show ?thesis by blast
qed

subsection \<open>File names\<close>

lemma digit_inj: "digit a = digit b \<Longrightarrow> a mod 10 = b mod 10"
proof -
  assume "digit a = digit b"
  then have "of_char (digit a) = (of_char (digit b) :: nat)" by simp
  then show ?thesis by (simp add: digit_def)
qed

lemma digit_not_sep: "digit a \<noteq> CHR ''/''"
proof
  assume "digit a = CHR ''/''"
  then have "of_char (digit a) = (of_char (CHR ''/'') :: nat)" by simp
  then show False by (simp add: digit_def)
qed

lemma two_digits: "(n::nat) mod 100 = 10 * (n div 10 mod 10) + n mod 10"
  using mod_mult2_eq[of n 10 10] by simp

lemma d2_inj: "n < 100 \<Longrightarrow> m < 100 \<Longrightarrow> d2 n = d2 m \<Longrightarrow> n = m"
proof -
  assume b: "n < 100" "m < 100" and e: "d2 n = d2 m"
  from e have "(n div 10) mod 10 = (m div 10) mod 10" "n mod 10 = m mod 10"
    by (auto simp: d2_def dest: digit_inj)
  then have "n mod 100 = m mod 100"
    by (simp add: two_digits)
  with b show ?thesis by simp
qed

lemma d4_inj: "n < 10000 \<Longrightarrow> m < 10000 \<Longrightarrow> d4 n = d4 m \<Longrightarrow> n = m"
proof -
  assume b: "n < 10000" "m < 10000" and e: "d4 n = d4 m"
  from e have h: "(n div 1000) mod 10 = (m div 1000) mod 10"
    "(n div 100) mod 10 = (m div 100) mod 10"
    "(n div 10) mod 10 = (m div 10) mod 10" "n mod 10 = m mod 10"
    by (auto simp: d4_def dest: digit_inj)
  have k: "x div 100 div 10 = x div 1000" for x :: nat
    by (simp add: div_mult2_eq[symmetric])
  from b have "n div 100 < 100" "m div 100 < 100" by simp_all
  moreover from h(1,2) have "(n div 100) mod 100 = (m div 100) mod 100"
    by (simp add: two_digits k)
  ultimately have hi: "n div 100 = m div 100" by simp
  from h(3,4) have lo: "n mod 100 = m mod 100"
    by (simp add: two_digits)
  from hi lo show ?thesis
    by (metis div_mult_mod_eq)
qed

lemma strftime_length: "length (strftime d) = 15"
  by (simp add: strftime_def d4_def d2_def)

lemma strftime_no_sep: "CHR ''/'' \<notin> set (strftime d)"
  by (simp add: strftime_def d4_def d2_def not_sym[OF digit_not_sep])

lemma strftime_to_second: "strftime (to_second d) = strftime d"
  by (simp add: strftime_def to_second_def)

lemma strftime_inj:
  assumes "valid_datetime a" "valid_datetime b" "strftime a = strftime b"
  shows "to_second a = to_second b"
proof -
  from assms(3) have "d4 (year a) = d4 (year b)" "d2 (month a) = d2 (month b)"
    "d2 (day a) = d2 (day b)" "d2 (hour a) = d2 (hour b)" "d2 (minute a) = d2 (minute b)"
    "d2 (second a) = d2 (second b)"
    by (simp_all add: strftime_def d4_def d2_def)
  with assms(1,2) have "year a = year b" "month a = month b" "day a = day b"
    "hour a = hour b" "minute a = minute b" "second a = second b"
    unfolding valid_datetime_def
    by (simp_all add: d2_inj d4_inj)
  then show ?thesis
    by (cases a; cases b) (simp add: to_second_def)
qed

lemma split_sep_none: "CHR ''/'' \<notin> set xs \<Longrightarrow> split_sep xs = [xs]"
  by (induction xs) auto

lemma split_sep_app: "CHR ''/'' \<notin> set a \<Longrightarrow> split_sep (a @ CHR ''/'' # b) = a # split_sep b"
  by (induction a) auto

lemma truediv_plain:
  assumes "CHR ''/'' \<notin> set name" "name \<noteq> []" "name \<noteq> ''.''"
  shows "truediv (Path [] [''recordings'']) name = Path [] [''recordings'', name]"
proof -
  from assms(1,2) have "take 1 name \<noteq> ''/''"
    by (cases name) auto
  then have j: "posix_join ''recordings'' name = ''recordings'' @ CHR ''/'' # name"
    by (simp add: posix_join_def)
  have "split_sep (''recordings'' @ CHR ''/'' # name) = [''recordings'', name]"
    using assms(1) by (subst split_sep_app) (simp_all add: split_sep_none)
  then have "parse_path (''recordings'' @ CHR ''/'' # name) = Path [] [''recordings'', name]"
    using assms(2,3) by (simp add: parse_path_def splitroot_def)
  with j show ?thesis
    by (simp add: truediv_def)
qed

lemma name_inj:
  "c1 @ ''_'' @ strftime a @ ''.mp4'' = c2 @ ''_'' @ strftime b @ ''.mp4'' \<longleftrightarrow>
   c1 = c2 \<and> strftime a = strftime b"
proof -
  have "length (''_'' @ strftime a @ ''.mp4'') = length (''_'' @ strftime b @ ''.mp4'')"
    by (simp add: strftime_length)
  then have "c1 @ (''_'' @ strftime a @ ''.mp4'') = c2 @ (''_'' @ strftime b @ ''.mp4'') \<longleftrightarrow>
     c1 = c2 \<and> ''_'' @ strftime a @ ''.mp4'' = ''_'' @ strftime b @ ''.mp4''"
    by (rule append_eq_append_conv[OF disjI2])
  then show ?thesis by simp
qed

lemma filename_plain:
  assumes "output_dir s = Path [] [''recordings'']" "CHR ''/'' \<notin> set (channel s)"
  shows "fst (get_output_filename d s) =
     Path [] [''recordings'', channel s @ ''_'' @ strftime d @ ''.mp4'']"
proof -
  let ?n = "channel s @ ''_'' @ strftime d @ ''.mp4''"
  have "CHR ''/'' \<notin> set ?n" "?n \<noteq> []" "?n \<noteq> ''.''"
    using assms(2) by (simp_all add: strftime_no_sep append_eq_Cons_conv)
  then show ?thesis
    using assms(1) by (simp add: get_output_filename_def truediv_plain)
qed

lemma digit_chars:
  "char_of (48::nat) = CHR ''0''" "char_of (49::nat) = CHR ''1''" "char_of (50::nat) = CHR ''2''"
  "char_of (51::nat) = CHR ''3''" "char_of (52::nat) = CHR ''4''" "char_of (53::nat) = CHR ''5''"
  "char_of (54::nat) = CHR ''6''" "char_of (55::nat) = CHR ''7''" "char_of (56::nat) = CHR ''8''"
  "char_of (57::nat) = CHR ''9''"
  by code_simp+

text \<open>
  C8. A channel identifier is a Twitch login and has no \<^verbatim>\<open>/\<close> in it. For such a
  channel and a clock reading with year, month, day, hour, minute, second, the allocator
  returns the path \<^verbatim>\<open>recordings/{channel}_{YYYYMMDD_HHMMSS}.mp4\<close>: four digits of the
  year, two of the month, two of the day, an underscore, two digits each of the hour, the
  minute and the second. Two allocations return the same path exactly when the channels are
  the same and the readings fall in the same second.
\<close>

theorem output_filename_distinct:
  "output_dir s1 = Path [] [''recordings''] \<and> output_dir s2 = Path [] [''recordings''] \<and>
   CHR ''/'' \<notin> set (channel s1) \<and> CHR ''/'' \<notin> set (channel s2) \<and>
   valid_datetime da \<and> valid_datetime db \<longrightarrow>
     str_path (fst (get_output_filename da s1)) =
       ''recordings/'' @ channel s1 @ ''_'' @
       d4 (year da) @ d2 (month da) @ d2 (day da) @ ''_'' @
       d2 (hour da) @ d2 (minute da) @ d2 (second da) @ ''.mp4''
     \<and> length (d4 (year da)) = 4 \<and> length (d2 (month da)) = 2 \<and> length (d2 (day da)) = 2
     \<and> length (d2 (hour da)) = 2 \<and> length (d2 (minute da)) = 2 \<and> length (d2 (second da)) = 2
     \<and> (fst (get_output_filename da s1) = fst (get_output_filename db s2) \<longleftrightarrow>
          channel s1 = channel s2 \<and> to_second da = to_second db)"
proof (intro impI, elim conjE)
  assume o: "output_dir s1 = Path [] [''recordings'']" "output_dir s2 = Path [] [''recordings'']"
    and c: "CHR ''/'' \<notin> set (channel s1)" "CHR ''/'' \<notin> set (channel s2)"
    and v: "valid_datetime da" "valid_datetime db"
  have p1: "fst (get_output_filename da s1) =
      Path [] [''recordings'', channel s1 @ ''_'' @ strftime da @ ''.mp4'']"
    by (rule filename_plain[OF o(1) c(1)])
  have p2: "fst (get_output_filename db s2) =
      Path [] [''recordings'', channel s2 @ ''_'' @ strftime db @ ''.mp4'']"
    by (rule filename_plain[OF o(2) c(2)])
  have t: "strftime da = strftime db \<longleftrightarrow> to_second da = to_second db"
    using strftime_inj[OF v] strftime_to_second[of da] strftime_to_second[of db] by metis
  have e: "fst (get_output_filename da s1) = fst (get_output_filename db s2) \<longleftrightarrow>
      channel s1 = channel s2 \<and> to_second da = to_second db"
    unfolding p1 p2 using name_inj[of "channel s1" da "channel s2" db] t by simp
  have f: "str_path (fst (get_output_filename da s1)) =
       ''recordings/'' @ channel s1 @ ''_'' @
       d4 (year da) @ d2 (month da) @ d2 (day da) @ ''_'' @
       d2 (hour da) @ d2 (minute da) @ d2 (second da) @ ''.mp4''"
    by (simp add: p1 strftime_def)
  have l: "length (d4 (year da)) = 4 \<and> length (d2 (month da)) = 2 \<and> length (d2 (day da)) = 2
     \<and> length (d2 (hour da)) = 2 \<and> length (d2 (minute da)) = 2 \<and> length (d2 (second da)) = 2"
    by (simp add: d4_def d2_def)
  from e f l show "str_path (fst (get_output_filename da s1)) =
       ''recordings/'' @ channel s1 @ ''_'' @
       d4 (year da) @ d2 (month da) @ d2 (day da) @ ''_'' @
       d2 (hour da) @ d2 (minute da) @ d2 (second da) @ ''.mp4''
     \<and> length (d4 (year da)) = 4 \<and> length (d2 (month da)) = 2 \<and> length (d2 (day da)) = 2
     \<and> length (d2 (hour da)) = 2 \<and> length (d2 (minute da)) = 2 \<and> length (d2 (second da)) = 2
     \<and> (fst (get_output_filename da s1) = fst (get_output_filename db s2) \<longleftrightarrow>
          channel s1 = channel s2 \<and> to_second da = to_second db)"
    by blast
qed

theorem output_filename_distinct_witness:
  "output_dir recorder0 = Path [] [''recordings''] \<and> CHR ''/'' \<notin> set (channel recorder0)
   \<and> valid_datetime evening \<and> valid_datetime (evening\<lparr>second := 7\<rparr>)
   \<and> valid_datetime (evening\<lparr>microsecond := 750000\<rparr>) \<and> valid_datetime noon
   \<and> d4 (year evening) = ''2024'' \<and> d2 (month evening) = ''03'' \<and> d2 (day evening) = ''09''
   \<and> d2 (hour evening) = ''17'' \<and> d2 (minute evening) = ''45'' \<and> d2 (second evening) = ''06''
   \<and> str_path (fst (get_output_filename evening recorder0)) =
       ''recordings/foo_20240309_174506.mp4''
   \<and> str_path (fst (get_output_filename noon recorder0)) =
       ''recordings/foo_20240101_120000.mp4''
   \<and> fst (get_output_filename evening recorder0) \<noteq>
       fst (get_output_filename (evening\<lparr>second := 7\<rparr>) recorder0)
   \<and> fst (get_output_filename evening recorder0) \<noteq>
       fst (get_output_filename evening (recorder0\<lparr>channel := ''bar''\<rparr>))
   \<and> fst (get_output_filename evening recorder0) =
       fst (get_output_filename (evening\<lparr>microsecond := 750000\<rparr>) recorder0)"
proof -
  let ?bar = "recorder0\<lparr>channel := ''bar''\<rparr>"
  have h: "output_dir recorder0 = Path [] [''recordings'']" "CHR ''/'' \<notin> set (channel recorder0)"
    "output_dir ?bar = Path [] [''recordings'']" "CHR ''/'' \<notin> set (channel ?bar)"
    "channel recorder0 \<noteq> channel ?bar" "channel recorder0 = ''foo''"
    by (simp_all add: recorder0_def)
  have v: "valid_datetime evening" "valid_datetime (evening\<lparr>second := 7\<rparr>)"
    "valid_datetime (evening\<lparr>microsecond := 750000\<rparr>)" "valid_datetime noon"
    by (simp_all add: valid_datetime_def evening_def noon_def)
  have g: "d4 (year evening) = ''2024''" "d2 (month evening) = ''03''" "d2 (day evening) = ''09''"
    "d2 (hour evening) = ''17''" "d2 (minute evening) = ''45''" "d2 (second evening) = ''06''"
    by (simp_all add: d4_def d2_def digit_def evening_def digit_chars)
  have n: "d4 (year noon) = ''2024''" "d2 (month noon) = ''01''" "d2 (day noon) = ''01''"
    "d2 (hour noon) = ''12''" "d2 (minute noon) = ''00''" "d2 (second noon) = ''00''"
    by (simp_all add: d4_def d2_def digit_def noon_def digit_chars)
  have d: "to_second evening \<noteq> to_second (evening\<lparr>second := 7\<rparr>)"
    "to_second evening = to_second (evening\<lparr>microsecond := 750000\<rparr>)"
    by (simp_all add: to_second_def evening_def)
  note a = output_filename_distinct[of recorder0 recorder0 evening "evening\<lparr>second := 7\<rparr>"]
  note b = output_filename_distinct[of recorder0 recorder0 evening
      "evening\<lparr>microsecond := 750000\<rparr>"]
  note c = output_filename_distinct[of recorder0 ?bar evening evening]
  note e = output_filename_distinct[of recorder0 recorder0 noon noon]
  from a h v have a1: "str_path (fst (get_output_filename evening recorder0)) =
       ''recordings/'' @ channel recorder0 @ ''_'' @
       d4 (year evening) @ d2 (month evening) @ d2 (day evening) @ ''_'' @
       d2 (hour evening) @ d2 (minute evening) @ d2 (second evening) @ ''.mp4''"
    and a2: "fst (get_output_filename evening recorder0) = fst (get_output_filename (evening\<lparr>second := 7\<rparr>) recorder0) \<longleftrightarrow>
          channel recorder0 = channel recorder0 \<and> to_second evening = to_second (evening\<lparr>second := 7\<rparr>)"
    by blast+
  from a1 have a3: "str_path (fst (get_output_filename evening recorder0)) =
       ''recordings/foo_20240309_174506.mp4''"
    unfolding g h(6) by simp
  from e h v have "str_path (fst (get_output_filename noon recorder0)) =
       ''recordings/'' @ channel recorder0 @ ''_'' @
       d4 (year noon) @ d2 (month noon) @ d2 (day noon) @ ''_'' @
       d2 (hour noon) @ d2 (minute noon) @ d2 (second noon) @ ''.mp4''"
    by blast
  then have e1: "str_path (fst (get_output_filename noon recorder0)) =
       ''recordings/foo_20240101_120000.mp4''"
    unfolding n h(6) by simp
  from a2 d(1) have a4: "fst (get_output_filename evening recorder0) \<noteq>
       fst (get_output_filename (evening\<lparr>second := 7\<rparr>) recorder0)"
    by blast
  from b h v d(2) have b1: "fst (get_output_filename evening recorder0) =
       fst (get_output_filename (evening\<lparr>microsecond := 750000\<rparr>) recorder0)"
    by blast
  from c h v have c1: "fst (get_output_filename evening recorder0) \<noteq>
       fst (get_output_filename evening ?bar)"
    by blast
  from h(1,2) v g a3 e1 a4 c1 b1 show ?thesis
    by blast
qed

subsection \<open>The output directory\<close>

text \<open>
  C9, as the spec states it, would have the allocator create the directory. It does not:
  when the directory that the constructor made is removed afterwards, a call of the
  allocator returns a path in it and the directory is still missing.
\<close>

theorem output_dir_not_recreated:
  "init ''foo'' ''480p,360p,best'' Map.empty = Inr recorder0
   \<and> fs recorder0 ''recordings'' = Some Dir
   \<and> fs (removed ''recordings'' recorder0) ''recordings'' = None
   \<and> str_path (fst (get_output_filename noon (removed ''recordings'' recorder0))) =
       ''recordings/foo_20240101_120000.mp4''
   \<and> fs (snd (get_output_filename noon (removed ''recordings'' recorder0))) ''recordings'' = None"
proof -
  have "str_path (fst (get_output_filename noon (removed ''recordings'' recorder0))) =
       ''recordings/foo_20240101_120000.mp4''"
    by code_simp
  then show ?thesis
    by (simp add: init0 get_output_filename_def removed_def recorder0_def)
qed

text \<open>
  C9, amended. The constructor makes the output directory: when nothing has the name it
  creates the directory, when a directory has the name it leaves the file system as it is,
  and constructing again on the resulting file system changes nothing. The allocator does
  nothing to the file system or to the recorder, so the directory exists after a call
  exactly when it existed before.
\<close>

theorem output_dir_made_by_init:
  "(f ''recordings'' \<noteq> Some File \<longrightarrow>
      (\<exists>s. init ch q f = Inr s \<and> fs s = f(''recordings'' \<mapsto> Dir) \<and>
           fs s ''recordings'' = Some Dir \<and>
           (f ''recordings'' = Some Dir \<longrightarrow> fs s = f) \<and>
           init ch q (fs s) = Inr s))
   \<and> snd (get_output_filename d r) = r
   \<and> fs (snd (get_output_filename d r)) ''recordings'' = fs r ''recordings''"
proof -
  have p: "str_path (parse_path ''recordings'') = ''recordings''"
    by (simp add: parse_path_def splitroot_def)
  have "\<exists>s. init ch q f = Inr s \<and> fs s = f(''recordings'' \<mapsto> Dir) \<and>
           fs s ''recordings'' = Some Dir \<and>
           (f ''recordings'' = Some Dir \<longrightarrow> fs s = f) \<and>
           init ch q (fs s) = Inr s" if "f ''recordings'' \<noteq> Some File"
  proof (cases "f ''recordings''")
    case None
    then show ?thesis
      by (simp add: init_def mkdir_exist_ok_def p)
  next
    case (Some n)
    with that have "f ''recordings'' = Some Dir" by (cases n) simp_all
    then have "f(''recordings'' \<mapsto> Dir) = f" by (simp add: fun_upd_idem)
    with \<open>f ''recordings'' = Some Dir\<close> show ?thesis
      by (simp add: init_def mkdir_exist_ok_def p)
  qed
  then show ?thesis
    by (simp add: get_output_filename_def)
qed

theorem output_dir_made_by_init_witness:
  "Map.empty ''recordings'' \<noteq> Some File
   \<and> init ''foo'' ''480p,360p,best'' Map.empty = Inr recorder0
   \<and> fs recorder0 ''recordings'' = Some Dir
   \<and> init ''foo'' ''480p,360p,best'' (fs recorder0) = Inr recorder0
   \<and> fs (snd (get_output_filename noon recorder0)) ''recordings'' = Some Dir"
proof -
  have e: "(Map.empty :: string \<Rightarrow> node option) ''recordings'' \<noteq> Some File" by simp
  have r: "fs recorder0 ''recordings'' = Some Dir" by (simp add: recorder0_def)
  show ?thesis
    using e r init0
      output_dir_made_by_init[of Map.empty "''foo''" "''480p,360p,best''" noon recorder0]
    by auto
qed

subsection \<open>What the calls leave alone\<close>

lemma emit_frame [simp]:
  "procs (emit e s) = procs s" "process (emit e s) = process s" "peak (emit e s) = peak s"
  "twitch (emit e s) = twitch s" "channel (emit e s) = channel s"
  "trace (emit e s) = trace s @ [e]"
  by (simp_all add: emit_def)

lemma logging_frame [simp]:
  "procs (logging l m s) = procs s" "process (logging l m s) = process s"
  "peak (logging l m s) = peak s" "twitch (logging l m s) = twitch s"
  "channel (logging l m s) = channel s" "trace (logging l m s) = trace s @ [Log l m]"
  by (simp_all add: logging_def)

lemma same_children:
  assumes "procs s' = procs s" "process s' = process s" "peak s' = peak s"
  shows "at_most_one s' = at_most_one s" "idle s' = idle s" "live_count s' = live_count s"
    "poll_is_None s' = poll_is_None s"
  using assms
  by (auto simp: at_most_one_def idle_def live_count_def poll_is_None_def running_def
      split: option.splits)

lemma sleep_frame:
  "sleep i n s = (r, s') \<Longrightarrow> procs s' = procs s \<and> process s' = process s \<and> peak s' = peak s"
  by (auto simp: sleep_def split: if_splits)

lemma sleep_result:
  "sleep i n s = (Inl e, s') \<Longrightarrow> cls e = KeyboardInterrupt"
  by (auto simp: sleep_def split: if_splits)

lemma isl_frame:
  "is_stream_live a s = (r, s') \<Longrightarrow> procs s' = procs s \<and> process s' = process s \<and> peak s' = peak s"
  by (cases "handshake a"; cases "streams a")
     (auto simp: is_stream_live_def initialize_twitch_def live_except_def Let_def emit_def
        logging_def split: if_splits)

lemma probe_frame:
  "is_internet_available net s = (r, s') \<Longrightarrow>
   procs s' = procs s \<and> process s' = process s \<and> peak s' = peak s"
  using probe_snd[of net endpoints s] by (auto simp: is_internet_available_def)

subsection \<open>Counting the children\<close>

lemma filter_nth_pos: "i < length xs \<Longrightarrow> P (xs ! i) \<Longrightarrow> 0 < length (filter P xs)"
  by (metis filter_empty_conv length_greater_0_conv nth_mem)

lemma filter_update_length:
  "\<not> P y \<Longrightarrow>
   length (filter P (xs[i := y])) =
     length (filter P xs) - (if i < length xs \<and> P (xs ! i) then 1 else 0)"
proof (induction xs arbitrary: i)
  case Nil
  then show ?case by simp
next
  case (Cons x xs)
  show ?case
  proof (cases i)
    case 0
    with Cons.prems show ?thesis by simp
  next
    case (Suc j)
    with Cons.prems Cons.IH[of j] filter_nth_pos[of j xs P] show ?thesis
      by (cases "j < length xs \<and> P (xs ! j)") auto
  qed
qed

lemma live_count_exit:
  "live_count (s\<lparr>procs := (procs s)[p := Exited]\<rparr>) =
     live_count s - (if running s p then 1 else 0)"
  using filter_update_length[of "\<lambda>x. x = Running" Exited "procs s" p]
  by (simp add: live_count_def running_def)

lemma not_polling: "at_most_one s \<Longrightarrow> \<not> poll_is_None s \<Longrightarrow> idle s"
  by (auto simp: at_most_one_def idle_def)

lemma idle_at_most_one: "idle s \<Longrightarrow> at_most_one s"
  by (simp add: at_most_one_def idle_def)

lemma child_exits_idle: "at_most_one s \<Longrightarrow> idle (child_exits s)"
  by (cases "process s")
     (auto simp: at_most_one_def idle_def child_exits_def poll_is_None_def live_count_exit)

lemma live_count_stopped:
  "live_count (s\<lparr>process := x, procs := (procs s)[p := Exited], trace := tr\<rparr>) =
     live_count s - (if running s p then 1 else 0)"
  using filter_update_length[of "\<lambda>x. x = Running" Exited "procs s" p]
  by (simp add: live_count_def running_def)

lemma held_running: "at_most_one s \<Longrightarrow> process s = Some p \<Longrightarrow> running s p \<Longrightarrow> live_count s = 1"
  using live_count_pos[of s p] by (auto simp: at_most_one_def)

lemma held_not_running:
  "at_most_one s \<Longrightarrow> process s = Some p \<Longrightarrow> \<not> running s p \<Longrightarrow> live_count s = 0"
  by (auto simp: at_most_one_def poll_is_None_def)

lemma stop_keeps:
  assumes a: "at_most_one s"
  shows "at_most_one (snd (stop_recording st s)) \<and>
     (fst (stop_recording st s) = Inr () \<longrightarrow> idle (snd (stop_recording st s)))"
proof (cases rule: stop_cases[where s = s and st = st])
  case none
  with a show ?thesis
    by (simp add: stop_None at_most_one_def idle_def poll_is_None_def)
next
  case (exited p)
  have "live_count s - (if running s p then 1 else 0) = 0"
    using held_running[OF a exited(1)] held_not_running[OF a exited(1)] by auto
  with a exited show ?thesis
    by (simp add: stop_exited live_count_stopped at_most_one_def idle_def)
next
  case (exits p)
  with a held_running[OF a exits(1,2)] show ?thesis
    by (simp add: stop_exits live_count_stopped at_most_one_def idle_def)
next
  case (expires p)
  with a held_running[OF a expires(1,2)] show ?thesis
    by (simp add: stop_expires live_count_stopped at_most_one_def idle_def)
next
  case (interrupted p g)
  let ?s' = "snd (stop_recording st s)"
  show ?thesis
  proof (cases g)
    case True
    have "live_count (s\<lparr>procs := (procs s)[p := Exited], trace := tr\<rparr>) = 0" for tr
      using live_count_exit[of s p] held_running[OF a interrupted(1,2)] interrupted(2)
      by (simp add: live_count_def)
    with a interrupted True show ?thesis
      by (simp add: stop_interrupted at_most_one_def)
  next
    case False
    have "procs ?s' = procs s" "process ?s' = process s" "peak ?s' = peak s"
      using interrupted False by (simp_all add: stop_interrupted)
    with a same_children(1)[of ?s' s] interrupted show ?thesis
      by (simp add: stop_interrupted)
  qed
qed

lemma start_at_most_one:
  "idle s \<Longrightarrow> at_most_one (snd (start_recording None f s)) \<and>
     poll_is_None (snd (start_recording None f s))"
  by (simp add: start_ok idle_def at_most_one_def live_count_def poll_is_None_def running_def)

subsection \<open>The loop keeps at most one child\<close>

lemma monitor_exit:
  assumes "s0 = (if m_exited m then child_exits s else s)"
    and "\<not> (process s0 \<noteq> None \<and> poll_is_None s0)"
  shows "monitor (m # ms) s = (Inr Continue, s0)"
  unfolding monitor.simps Let_def assms(1)[symmetric] using assms(2) by simp

lemma monitor_raise:
  assumes "s0 = (if m_exited m then child_exits s else s)"
    and "process s0 \<noteq> None \<and> poll_is_None s0"
    and "is_stream_live (m_api m) s0 = (Inl e, s1)"
  shows "monitor (m # ms) s = (Inl e, s1)"
  unfolding monitor.simps Let_def assms(1)[symmetric] using assms(2,3) by simp

lemma monitor_stop:
  assumes "s0 = (if m_exited m then child_exits s else s)"
    and "process s0 \<noteq> None \<and> poll_is_None s0"
    and "is_stream_live (m_api m) s0 = (Inr False, s1)"
  shows "monitor (m # ms) s =
     (case fst (stop_recording (m_stop m) (logging INFO ''Stream ended'' s1)) of
        Inl e \<Rightarrow> Inl e
      | Inr u \<Rightarrow> Inr Continue,
      snd (stop_recording (m_stop m) (logging INFO ''Stream ended'' s1)))"
  unfolding monitor.simps Let_def assms(1)[symmetric]
  using assms(2,3)
  by (cases "stop_recording (m_stop m) (logging INFO ''Stream ended'' s1)")
     (simp split: sum.splits)

lemma monitor_sleep:
  assumes "s0 = (if m_exited m then child_exits s else s)"
    and "process s0 \<noteq> None \<and> poll_is_None s0"
    and "is_stream_live (m_api m) s0 = (Inr True, s1)"
  shows "monitor (m # ms) s =
     (if m_interrupted m then (Inl (Exn KeyboardInterrupt []), emit (Sleep 30) s1)
      else monitor ms (emit (Sleep 30) s1))"
  unfolding monitor.simps Let_def assms(1)[symmetric] using assms(2,3)
  by (simp add: sleep_def)

lemma monitor_keeps:
  "at_most_one s \<Longrightarrow> monitor ms s = (r, s') \<Longrightarrow>
   at_most_one s' \<and> (r = Inr Continue \<longrightarrow> idle s') \<and>
   (r = Inr Continue \<or> r = Inr Unfinished \<or> (\<exists>e. r = Inl e))"
proof (induction ms arbitrary: s)
  case Nil
  then show ?case by auto
next
  case (Cons m ms)
  define s0 where "s0 = (if m_exited m then child_exits s else s)"
  have a0: "at_most_one s0"
    using Cons.prems(1) by (simp add: s0_def child_exits_idle idle_at_most_one)
  show ?case
  proof (cases "process s0 \<noteq> None \<and> poll_is_None s0")
    case False
    then have "\<not> poll_is_None s0"
      by (auto simp: poll_is_None_def)
    with Cons.prems(2) a0 monitor_exit[OF s0_def False, of ms] not_polling[of s0]
      idle_at_most_one[of s0] show ?thesis by auto
  next
    case True
    obtain rl s1 where l: "is_stream_live (m_api m) s0 = (rl, s1)"
      by (cases "is_stream_live (m_api m) s0")
    note f1 = isl_frame[OF l]
    have a1: "at_most_one s1"
      using a0 same_children(1)[of s1 s0] f1 by simp
    show ?thesis
    proof (cases rl)
      case (Inl e)
      with Cons.prems(2) a1 monitor_raise[OF s0_def True, of e s1 ms] l show ?thesis
        by auto
    next
      case (Inr live)
      show ?thesis
      proof (cases live)
        case False
        let ?st = "stop_recording (m_stop m) (logging INFO ''Stream ended'' s1)"
        have "at_most_one (logging INFO ''Stream ended'' s1)"
          using a1 same_children(1)[of "logging INFO ''Stream ended'' s1" s1] by simp
        from stop_keeps[OF this, of "m_stop m"]
        have k: "at_most_one (snd ?st)" "fst ?st = Inr () \<longrightarrow> idle (snd ?st)"
          by simp_all
        from Cons.prems(2) monitor_stop[OF s0_def True, of s1 ms] l Inr False
        have "r = (case fst ?st of Inl e \<Rightarrow> Inl e | Inr u \<Rightarrow> Inr Continue)" "s' = snd ?st"
          by simp_all
        with k show ?thesis
          by (cases "fst ?st") auto
      next
        case True2: True
        have a2: "at_most_one (emit (Sleep 30) s1)"
          using a1 same_children(1)[of "emit (Sleep 30) s1" s1] by simp
        from l Inr True2 have m: "monitor (m # ms) s =
            (if m_interrupted m then (Inl (Exn KeyboardInterrupt []), emit (Sleep 30) s1)
             else monitor ms (emit (Sleep 30) s1))"
          using monitor_sleep[OF s0_def True, of s1 ms] by simp
        show ?thesis
        proof (cases "m_interrupted m")
          case True
          with m Cons.prems(2) a2 show ?thesis by auto
        next
          case False
          with m Cons.prems(2) Cons.IH[OF a2] show ?thesis by simp
        qed
      qed
    qed
  qed
qed

lemma handlers_interrupt:
  "cls e = KeyboardInterrupt \<Longrightarrow>
   handlers t e s =
     (case fst (stop_recording (h_stop t) (logging INFO ''Recording interrupted by user'' s)) of
        Inl x \<Rightarrow> Escaped x
      | Inr u \<Rightarrow> Break,
      snd (stop_recording (h_stop t) (logging INFO ''Recording interrupted by user'' s)))"
  by (cases "stop_recording (h_stop t) (logging INFO ''Recording interrupted by user'' s)")
     (simp add: handlers_def split: sum.splits)

lemma handlers_error:
  "isinstance_Exception e \<Longrightarrow>
   handlers t e s =
     (case fst (stop_recording (h_stop t)
                  (logging ERROR (''Unexpected error: '' @ str_exn e) s)) of
        Inl x \<Rightarrow>
          (Escaped x,
           snd (stop_recording (h_stop t) (logging ERROR (''Unexpected error: '' @ str_exn e) s)))
      | Inr u \<Rightarrow>
          (if h_interrupted t then Escaped (Exn KeyboardInterrupt []) else Continue,
           emit (Sleep 30)
             (snd (stop_recording (h_stop t)
                     (logging ERROR (''Unexpected error: '' @ str_exn e) s)))))"
  by (cases "stop_recording (h_stop t) (logging ERROR (''Unexpected error: '' @ str_exn e) s)")
     (simp add: handlers_def isinstance_Exception_def sleep_def split: sum.splits)

lemma handlers_pass:
  "cls e = CancelledError \<Longrightarrow> handlers t e s = (Escaped e, s)"
  by (simp add: handlers_def isinstance_Exception_def)

lemma not_Exception: "\<not> isinstance_Exception (Exn KeyboardInterrupt m)"
  by (simp add: isinstance_Exception_def)

lemma handlers_keeps:
  assumes "at_most_one s" "handlers t e s = (r, s')"
  shows "at_most_one s' \<and> (r = Continue \<or> r = Break \<longrightarrow> idle s' \<and> process s' = None) \<and>
     r \<noteq> Unfinished \<and> (\<forall>x. r = Escaped x \<longrightarrow> \<not> isinstance_Exception x)"
proof -
  consider (ki) "cls e = KeyboardInterrupt" | (ex) "isinstance_Exception e"
    | (ca) "cls e = CancelledError"
    by (auto simp: isinstance_Exception_def)
  then show ?thesis
  proof cases
    case ki
    let ?s1 = "logging INFO ''Recording interrupted by user'' s"
    let ?st = "stop_recording (h_stop t) ?s1"
    have "at_most_one ?s1"
      using assms(1) same_children(1)[of ?s1 s] by simp
    note k = stop_keeps[OF this, of "h_stop t"]
    from assms(2) handlers_interrupt[OF ki, of t s]
    have r: "r = (case fst ?st of Inl x \<Rightarrow> Escaped x | Inr u \<Rightarrow> Break)" "s' = snd ?st"
      by simp_all
    show ?thesis
    proof (cases "fst ?st")
      case (Inl x)
      with stop_raises[of "h_stop t" ?s1 x] r k show ?thesis
        by (simp add: not_Exception)
    next
      case (Inr u)
      with stop_returns[of "h_stop t" ?s1] r k show ?thesis
        by simp
    qed
  next
    case ex
    let ?s1 = "logging ERROR (''Unexpected error: '' @ str_exn e) s"
    let ?st = "stop_recording (h_stop t) ?s1"
    have "at_most_one ?s1"
      using assms(1) same_children(1)[of ?s1 s] by simp
    note k = stop_keeps[OF this, of "h_stop t"]
    show ?thesis
    proof (cases "fst ?st")
      case (Inl x)
      with assms(2) handlers_error[OF ex, of t s] have "r = Escaped x" "s' = snd ?st"
        by simp_all
      with stop_raises[of "h_stop t" ?s1 x] Inl k show ?thesis
        by (simp add: not_Exception)
    next
      case (Inr u)
      with assms(2) handlers_error[OF ex, of t s]
      have r: "r = (if h_interrupted t then Escaped (Exn KeyboardInterrupt []) else Continue)"
        "s' = emit (Sleep 30) (snd ?st)"
        by simp_all
      from Inr k have "idle (snd ?st)" by simp
      then have "idle s'" "at_most_one s'"
        using same_children(2)[of s' "snd ?st"] r(2) by (simp_all add: idle_at_most_one)
      moreover have "process s' = None"
        using stop_returns[of "h_stop t" ?s1] Inr r(2) by simp
      ultimately show ?thesis
        using r(1) by (simp add: not_Exception)
    qed
  next
    case ca
    with assms handlers_pass[OF ca, of t s] show ?thesis
      by (auto simp: isinstance_Exception_def)
  qed
qed

lemma try_body_keeps:
  assumes i: "idle s" and b: "try_body t s = (r, s')"
  shows "at_most_one s' \<and> (r = Inr Continue \<longrightarrow> idle s') \<and>
     (r = Inr Continue \<or> r = Inr Unfinished \<or> (\<exists>e. r = Inl e))"
proof -
  obtain rn s1 where n: "is_internet_available (t_net t) s = (rn, s1)"
    by (cases "is_internet_available (t_net t) s")
  have i1: "idle s1"
    using i same_children(2)[of s1 s] probe_frame[OF n] by simp
  show ?thesis
  proof (cases rn)
    case (Inl e)
    with b n i1 show ?thesis
      by (auto simp: try_body_def idle_at_most_one)
  next
    case (Inr online)
    show ?thesis
    proof (cases online)
      case False
      let ?s2 = "emit (Sleep 30) (logging WARNING ''No internet connection'' s1)"
      have "idle ?s2"
        using i1 same_children(2)[of ?s2 s1] by simp
      with b n Inr False show ?thesis
        by (auto simp: try_body_def sleep_def idle_at_most_one split: if_splits)
    next
      case True
      obtain rl s2 where l: "is_stream_live (t_api t) s1 = (rl, s2)"
        by (cases "is_stream_live (t_api t) s1")
      have i2: "idle s2"
        using i1 same_children(2)[of s2 s1] isl_frame[OF l] by simp
      show ?thesis
      proof (cases rl)
        case (Inl e)
        with b n \<open>rn = Inr online\<close> True l i2 show ?thesis
          by (auto simp: try_body_def idle_at_most_one)
      next
        case live: (Inr live)
        show ?thesis
        proof (cases live)
          case False
          let ?s3 = "emit (Sleep 30) (logging INFO (''Channel '' @ channel s2 @ '' is not live'') s2)"
          have "idle ?s3"
            using i2 same_children(2)[of ?s3 s2] by simp
          with b n Inr True l live False show ?thesis
            by (auto simp: try_body_def sleep_def idle_at_most_one split: if_splits)
        next
          case on: True
          let ?f = "fst (get_output_filename (t_now t) s2)"
          show ?thesis
          proof (cases "t_spawn t")
            case (Some e)
            with b n Inr True l live on i2 show ?thesis
              by (auto simp: try_body_def get_output_filename_def start_fail idle_at_most_one)
          next
            case None
            let ?s4 = "snd (start_recording None ?f s2)"
            have "at_most_one ?s4"
              using start_at_most_one[OF i2] by simp
            moreover have "monitor (t_mon t) ?s4 = (r, s')"
              using b n Inr True l live on None
              by (simp add: try_body_def get_output_filename_def start_ok)
            ultimately show ?thesis
              by (rule monitor_keeps)
          qed
        qed
      qed
    qed
  qed
qed


lemma run_tick_keeps:
  assumes i: "idle s" and b: "run_tick t s = (r, s')"
  shows "at_most_one s' \<and> (r = Continue \<or> r = Break \<longrightarrow> idle s') \<and>
     (r = Break \<longrightarrow> process s' = None) \<and>
     (\<forall>x. r = Escaped x \<longrightarrow> \<not> isinstance_Exception x)"
proof -
  obtain rb s1 where t: "try_body t s = (rb, s1)"
    by (cases "try_body t s")
  note k = try_body_keeps[OF i t]
  show ?thesis
  proof (cases rb)
    case (Inl e)
    with b t have "handlers t e s1 = (r, s')"
      by (simp add: run_tick_def)
    with k handlers_keeps[of s1 t e r s'] show ?thesis
      by auto
  next
    case (Inr x)
    with b t have "r = x" "s' = s1"
      by (simp_all add: run_tick_def)
    with k Inr show ?thesis by auto
  qed
qed

lemma record_stream_keeps:
  "idle s \<Longrightarrow> record_stream ts s = (r, s') \<Longrightarrow>
   at_most_one s' \<and> r \<noteq> Continue \<and> (r = Break \<longrightarrow> idle s' \<and> process s' = None) \<and>
   (\<forall>x. r = Escaped x \<longrightarrow> \<not> isinstance_Exception x)"
proof (induction ts arbitrary: s)
  case Nil
  then show ?case by (auto simp: idle_at_most_one)
next
  case (Cons t ts)
  obtain r1 s1 where t: "run_tick t s = (r1, s1)"
    by (cases "run_tick t s")
  note k = run_tick_keeps[OF Cons.prems(1) t]
  show ?case
  proof (cases "r1 = Continue")
    case True
    with t Cons.prems(2) have "record_stream ts s1 = (r, s')" by simp
    moreover from k True have "idle s1" by simp
    ultimately show ?thesis by (rule Cons.IH[rotated])
  next
    case False
    with t Cons.prems(2) have "r = r1" "s' = s1"
      by (cases r1; simp)+
    with k False show ?thesis by (cases r1) auto
  qed
qed

lemma init_idle: "init ch q f = Inr s \<Longrightarrow> idle s"
  by (auto simp: init_def idle_def live_count_def split: sum.splits)

text \<open>
  C1. The recorder that the constructor builds has no child. From a state without a
  running child, after any number of rounds of \<^verbatim>\<open>record_stream\<close>, whatever the network,
  the API, the child and the user do (a stop that is interrupted and a cancelled task
  included), at most one child runs, and never more than one child ran at once: each spawn
  happened when no child was running.
\<close>

theorem at_most_one_recording:
  "(init ch q f = Inr s0 \<longrightarrow> idle s0)
   \<and> (idle s \<longrightarrow>
        live_count (snd (record_stream ts s)) \<le> 1 \<and> peak (snd (record_stream ts s)) \<le> 1)"
proof -
  have "live_count (snd (record_stream ts s)) \<le> 1 \<and> peak (snd (record_stream ts s)) \<le> 1"
    if "idle s"
    using record_stream_keeps[OF that, of ts "fst (record_stream ts s)" "snd (record_stream ts s)"]
    by (auto simp: at_most_one_def)
  then show ?thesis
    using init_idle[of ch q f s0] by blast
qed

theorem at_most_one_recording_witness:
  "init ''foo'' ''480p,360p,best'' Map.empty = Inr recorder0
   \<and> idle recorder0
   \<and> fst (record_stream [tick_live [m_on, m_gone], tick_live [m_off], tick_live [m_on, m_cancelled]]
        recorder0) = Escaped (Exn CancelledError [])
   \<and> procs (snd (record_stream [tick_live [m_on, m_gone], tick_live [m_off], tick_live [m_on, m_cancelled]]
        recorder0)) = [Exited, Exited, Running]
   \<and> live_count (snd (record_stream [tick_live [m_on, m_gone], tick_live [m_off], tick_live [m_on, m_cancelled]]
        recorder0)) \<le> 1
   \<and> peak (snd (record_stream [tick_live [m_on, m_gone], tick_live [m_off], tick_live [m_on, m_cancelled]]
        recorder0)) \<le> 1"
proof -
  let ?ts = "[tick_live [m_on, m_gone], tick_live [m_off], tick_live [m_on, m_cancelled]]"
  have p: "procs (snd (record_stream ?ts recorder0)) = [Exited, Exited, Running]"
    by code_simp
  have r: "fst (record_stream ?ts recorder0) = Escaped (Exn CancelledError [])"
    by code_simp
  note t = at_most_one_recording[of "''foo''" "''480p,360p,best''" Map.empty recorder0 recorder0 ?ts]
  from t init0 have i: "idle recorder0"
    by blast
  with t have "live_count (snd (record_stream ?ts recorder0)) \<le> 1"
    "peak (snd (record_stream ?ts recorder0)) \<le> 1"
    by blast+
  with p r i init0 show ?thesis
    by blast
qed

subsection \<open>The handlers of the outer loop\<close>






subsection \<open>One round of the inner loop\<close>

text \<open>
  C2, as the spec states it, would have stop issued when the child has exited on its
  own. It is not: the inner loop just ends. The handle of the exited child stays stored,
  no signal is sent and nothing is logged; a call of \<^verbatim>\<open>stop_recording\<close> there would have
  cleared the handle and logged.
\<close>

theorem exit_without_stop:
  "fst (monitor [m_gone] recording0) = Inr Continue
   \<and> process (snd (monitor [m_gone] recording0)) = Some 0
   \<and> procs (snd (monitor [m_gone] recording0)) = [Exited]
   \<and> trace (snd (monitor [m_gone] recording0)) = []
   \<and> process (snd (stop_recording st_exits (snd (monitor [m_gone] recording0)))) = None
   \<and> trace (snd (stop_recording st_exits (snd (monitor [m_gone] recording0)))) =
       [Log INFO ''Recording stopped'']"
  by code_simp

text \<open>
  C2, amended. A round of the inner loop with a running child held: when the child has
  exited on its own by the time of the poll, the loop ends with nothing sent, nothing
  logged and the handle kept. Otherwise the live status is checked. When it is false, the
  round logs and calls \<^verbatim>\<open>stop_recording\<close> once: a child that is still running is sent
  \<^verbatim>\<open>SIGTERM\<close>, waited for with a timeout of 10 seconds and sent \<^verbatim>\<open>SIGKILL\<close> when the
  wait timed out; a child that has exited during the query is sent nothing. When the wait
  is not interrupted, the handle is cleared, the child no longer runs and the loop ends;
  when it is, \<^verbatim>\<open>KeyboardInterrupt\<close> goes to the handlers of the outer loop. When the live
  status is true, the round sleeps 30 seconds and the next round polls the same child.
  Where the loop ends, the round of the outer loop ends too and the next one starts from
  the top.
\<close>

theorem monitor_round:
  "process s = Some p \<and> running s p \<longrightarrow>
     (m_exited m \<longrightarrow>
        monitor (m # ms) s = (Inr Continue, s\<lparr>procs := (procs s)[p := Exited]\<rparr>))
     \<and> (\<not> m_exited m \<and> fst (is_stream_live (m_api m) s) = Inr False \<longrightarrow>
          trace (snd (monitor (m # ms) s)) =
            trace (snd (is_stream_live (m_api m) s)) @ [Log INFO ''Stream ended''] @
            stop_events p (m_stop m) \<and>
          (completes (m_stop m) \<longrightarrow>
             fst (monitor (m # ms) s) = Inr Continue \<and>
             process (snd (monitor (m # ms) s)) = None \<and>
             \<not> running (snd (monitor (m # ms) s)) p) \<and>
          (\<not> completes (m_stop m) \<longrightarrow>
             fst (monitor (m # ms) s) = Inl (Exn KeyboardInterrupt []) \<and>
             process (snd (monitor (m # ms) s)) = Some p))
     \<and> (\<not> m_exited m \<and> fst (is_stream_live (m_api m) s) = Inr True \<and> \<not> m_interrupted m \<longrightarrow>
          monitor (m # ms) s = monitor ms (emit (Sleep 30) (snd (is_stream_live (m_api m) s))) \<and>
          process (emit (Sleep 30) (snd (is_stream_live (m_api m) s))) = Some p \<and>
          running (emit (Sleep 30) (snd (is_stream_live (m_api m) s))) p)"
proof (intro impI, elim conjE)
  assume h: "process s = Some p" "running s p"
  let ?s1 = "snd (is_stream_live (m_api m) s)"
  have f: "procs ?s1 = procs s" "process ?s1 = process s"
    using isl_frame[of "m_api m" s "fst (is_stream_live (m_api m) s)" ?s1] by simp_all
  have gone: "monitor (m # ms) s = (Inr Continue, s\<lparr>procs := (procs s)[p := Exited]\<rparr>)"
    if "m_exited m"
  proof -
    let ?s0 = "s\<lparr>procs := (procs s)[p := Exited]\<rparr>"
    have e: "?s0 = (if m_exited m then child_exits s else s)"
      using that h(1) by (simp add: child_exits_def)
    have "\<not> (process ?s0 \<noteq> None \<and> poll_is_None ?s0)"
      using h by (simp add: poll_is_None_def running_def)
    with e show ?thesis by (rule monitor_exit)
  qed
  have polled: "process s \<noteq> None \<and> poll_is_None s"
    using h by (simp add: poll_is_None_def)
  have off: "trace (snd (monitor (m # ms) s)) =
            trace ?s1 @ [Log INFO ''Stream ended''] @ stop_events p (m_stop m) \<and>
          (completes (m_stop m) \<longrightarrow>
             fst (monitor (m # ms) s) = Inr Continue \<and>
             process (snd (monitor (m # ms) s)) = None \<and>
             \<not> running (snd (monitor (m # ms) s)) p) \<and>
          (\<not> completes (m_stop m) \<longrightarrow>
             fst (monitor (m # ms) s) = Inl (Exn KeyboardInterrupt []) \<and>
             process (snd (monitor (m # ms) s)) = Some p)"
    if "\<not> m_exited m" "fst (is_stream_live (m_api m) s) = Inr False"
  proof -
    have e: "s = (if m_exited m then child_exits s else s)"
      using that(1) by simp
    have l: "is_stream_live (m_api m) s = (Inr False, ?s1)"
      using that(2) by (simp add: prod_eq_iff)
    let ?s2 = "logging INFO ''Stream ended'' ?s1"
    let ?st = "stop_recording (m_stop m) ?s2"
    have r: "process ?s2 = Some p" "running ?s2 p" "trace ?s2 = trace ?s1 @ [Log INFO ''Stream ended'']"
      using h f by (simp_all add: running_def)
    have m: "monitor (m # ms) s =
        (case fst ?st of Inl e \<Rightarrow> Inl e | Inr u \<Rightarrow> Inr Continue, snd ?st)"
      by (rule monitor_stop[OF e polled l])
    show ?thesis
    proof (cases rule: stop_cases[where s = ?s2 and st = "m_stop m"])
      case none
      with r show ?thesis by simp
    next
      case (exited q)
      with r have g: "gone (m_stop m)" by simp
      from exited r have "q = p" by simp
      with exited g r show ?thesis
        unfolding m by (simp add: stop_exited stop_events_def completes_def running_def)
    next
      case (exits q)
      with r have "q = p" by simp
      with exits r show ?thesis
        unfolding m by (simp add: stop_exits stop_events_def completes_def running_def)
    next
      case (expires q)
      with r have "q = p" by simp
      with expires r show ?thesis
        unfolding m by (simp add: stop_expires stop_events_def completes_def running_def)
    next
      case (interrupted q g)
      with r have "q = p" by simp
      with interrupted r show ?thesis
        unfolding m by (simp add: stop_interrupted stop_events_def completes_def)
    qed
  qed
  have on: "monitor (m # ms) s = monitor ms (emit (Sleep 30) ?s1) \<and>
          process (emit (Sleep 30) ?s1) = Some p \<and> running (emit (Sleep 30) ?s1) p"
    if "\<not> m_exited m" "fst (is_stream_live (m_api m) s) = Inr True" "\<not> m_interrupted m"
  proof -
    have e: "s = (if m_exited m then child_exits s else s)"
      using that(1) by simp
    have l: "is_stream_live (m_api m) s = (Inr True, ?s1)"
      using that(2) by (simp add: prod_eq_iff)
    from monitor_sleep[OF e polled l, of ms] that(3) h f show ?thesis
      by (simp add: running_def)
  qed
  from gone off on show "(m_exited m \<longrightarrow>
        monitor (m # ms) s = (Inr Continue, s\<lparr>procs := (procs s)[p := Exited]\<rparr>))
     \<and> (\<not> m_exited m \<and> fst (is_stream_live (m_api m) s) = Inr False \<longrightarrow>
          trace (snd (monitor (m # ms) s)) =
            trace (snd (is_stream_live (m_api m) s)) @ [Log INFO ''Stream ended''] @
            stop_events p (m_stop m) \<and>
          (completes (m_stop m) \<longrightarrow>
             fst (monitor (m # ms) s) = Inr Continue \<and>
             process (snd (monitor (m # ms) s)) = None \<and>
             \<not> running (snd (monitor (m # ms) s)) p) \<and>
          (\<not> completes (m_stop m) \<longrightarrow>
             fst (monitor (m # ms) s) = Inl (Exn KeyboardInterrupt []) \<and>
             process (snd (monitor (m # ms) s)) = Some p))
     \<and> (\<not> m_exited m \<and> fst (is_stream_live (m_api m) s) = Inr True \<and> \<not> m_interrupted m \<longrightarrow>
          monitor (m # ms) s = monitor ms (emit (Sleep 30) (snd (is_stream_live (m_api m) s))) \<and>
          process (emit (Sleep 30) (snd (is_stream_live (m_api m) s))) = Some p \<and>
          running (emit (Sleep 30) (snd (is_stream_live (m_api m) s))) p)"
    by blast
qed

theorem monitor_round_witness:
  "process recording0 = Some 0 \<and> running recording0 0
   \<and> m_exited m_gone
   \<and> fst (monitor [m_gone] recording0) = Inr Continue
   \<and> process (snd (monitor [m_gone] recording0)) = Some 0
   \<and> \<not> m_exited m_off
   \<and> fst (is_stream_live (m_api m_off) recording0) = Inr False
   \<and> completes (m_stop m_off)
   \<and> fst (monitor [m_off] recording0) = Inr Continue
   \<and> process (snd (monitor [m_off] recording0)) = None
   \<and> trace (snd (monitor [m_off] recording0)) =
       [GetStreams ''foo'', Log INFO ''Stream ended'', Signal SIGTERM 0, Wait 0 10,
        Signal SIGKILL 0, Log INFO ''Recording stopped'']
   \<and> trace (snd (monitor [m_off\<lparr>m_stop := st_gone\<rparr>] recording0)) =
       [GetStreams ''foo'', Log INFO ''Stream ended'', Log INFO ''Recording stopped'']
   \<and> \<not> completes st_interrupted
   \<and> fst (monitor [m_off\<lparr>m_stop := st_interrupted\<rparr>] recording0) =
       Inl (Exn KeyboardInterrupt [])
   \<and> \<not> m_exited m_on \<and> \<not> m_interrupted m_on
   \<and> fst (is_stream_live (m_api m_on) recording0) = Inr True
   \<and> monitor [m_on, m_gone] recording0 =
       monitor [m_gone] (emit (Sleep 30) (snd (is_stream_live (m_api m_on) recording0)))"
proof -
  let ?g = "m_off\<lparr>m_stop := st_gone\<rparr>"
  let ?i = "m_off\<lparr>m_stop := st_interrupted\<rparr>"
  have r: "process recording0 = Some 0" "running recording0 0"
    by (simp_all add: recording0_def running_def)
  have m: "m_exited m_gone" "\<not> m_exited m_off" "\<not> m_exited m_on" "\<not> m_interrupted m_on"
    "\<not> m_exited ?g" "\<not> m_exited ?i" "m_api ?g = m_api m_off" "m_api ?i = m_api m_off"
    "m_stop ?g = st_gone" "m_stop ?i = st_interrupted"
    by (simp_all add: m_gone_def m_off_def m_on_def)
  have c: "completes (m_stop m_off)" "\<not> completes st_interrupted" "completes st_gone"
    by (simp_all add: completes_def m_off_def st_expires_def st_interrupted_def st_gone_def)
  have v: "stop_events 0 (m_stop m_off) =
      [Signal SIGTERM 0, Wait 0 10, Signal SIGKILL 0, Log INFO ''Recording stopped'']"
    "stop_events 0 st_gone = [Log INFO ''Recording stopped'']"
    by (simp_all add: stop_events_def m_off_def st_expires_def st_gone_def)
  have l: "fst (is_stream_live (m_api m_off) recording0) = Inr False"
    "fst (is_stream_live (m_api m_on) recording0) = Inr True"
    "trace (snd (is_stream_live (m_api m_off) recording0)) = [GetStreams ''foo'']"
    by code_simp+
  note a = monitor_round[of recording0 0 m_gone "[]"]
  note b = monitor_round[of recording0 0 m_off "[]"]
  note d = monitor_round[of recording0 0 ?g "[]"]
  note e = monitor_round[of recording0 0 ?i "[]"]
  note k = monitor_round[of recording0 0 m_on "[m_gone]"]
  from a r m(1) have a1: "monitor [m_gone] recording0 =
      (Inr Continue, recording0\<lparr>procs := (procs recording0)[0 := Exited]\<rparr>)"
    by blast
  then have a2: "fst (monitor [m_gone] recording0) = Inr Continue"
    "process (snd (monitor [m_gone] recording0)) = Some 0"
    using r(1) by simp_all
  from b r m(2) l(1) c(1) have b1: "fst (monitor [m_off] recording0) = Inr Continue"
    "process (snd (monitor [m_off] recording0)) = None"
    "trace (snd (monitor [m_off] recording0)) =
       trace (snd (is_stream_live (m_api m_off) recording0)) @ [Log INFO ''Stream ended''] @
       stop_events 0 (m_stop m_off)"
    by blast+
  from b1(3) have b2: "trace (snd (monitor [m_off] recording0)) =
       [GetStreams ''foo'', Log INFO ''Stream ended'', Signal SIGTERM 0, Wait 0 10,
        Signal SIGKILL 0, Log INFO ''Recording stopped'']"
    unfolding l(3) v by simp
  from d r m(5) l(1) have "trace (snd (monitor [?g] recording0)) =
       trace (snd (is_stream_live (m_api ?g) recording0)) @ [Log INFO ''Stream ended''] @
       stop_events 0 (m_stop ?g)"
    unfolding m(7) by blast
  then have d1: "trace (snd (monitor [?g] recording0)) =
       [GetStreams ''foo'', Log INFO ''Stream ended'', Log INFO ''Recording stopped'']"
    unfolding m(7,9) l(3) v by simp
  from e r m(6) l(1) c(2) have e1: "fst (monitor [?i] recording0) = Inl (Exn KeyboardInterrupt [])"
    unfolding m(8,10) by blast
  from k r m(3,4) l(2) have k1: "monitor [m_on, m_gone] recording0 =
       monitor [m_gone] (emit (Sleep 30) (snd (is_stream_live (m_api m_on) recording0)))"
    by blast
  from r m(1,2,3,4) c(1,2) l(1,2) a2 b1(1,2) b2 d1 e1 k1 show ?thesis
    by blast
qed


end
